theory Spec2Isabelle
  imports Main
begin

section \<open>Strings and arrays of the JavaScript runtime\<close>

text \<open>
  A JavaScript string is a sequence of UTF-16 code units. The model uses \<^typ>\<open>string\<close>;
  a \<^typ>\<open>char\<close> stands for a code unit below 256. The white space of the class
  \<^verbatim>\<open>\s\<close> and of \<^verbatim>\<open>trim\<close> in that range is TAB, LF, VT, FF, CR, SPACE and
  NO-BREAK SPACE.
\<close>

definition isSpace :: "char \<Rightarrow> bool" where
  "isSpace c \<longleftrightarrow>
     c \<in> set [CHR 0x09, CHR 0x0A, CHR 0x0B, CHR 0x0C, CHR 0x0D, CHR 0x20, CHR 0xA0]"

text \<open>\<^verbatim>\<open>s.indexOf(c)\<close> for a one-character search string: the first position, or -1.\<close>

definition indexOf :: "string \<Rightarrow> char \<Rightarrow> int" where
  "indexOf s c = (if c \<in> set s then int (length (takeWhile (\<lambda>x. x \<noteq> c) s)) else - 1)"

text \<open>\<^verbatim>\<open>s.split(sep)\<close> for a one-character separator: never the empty array.\<close>

function split :: "char \<Rightarrow> string \<Rightarrow> string list" where
  "split sep s =
     takeWhile (\<lambda>x. x \<noteq> sep) s #
       (case dropWhile (\<lambda>x. x \<noteq> sep) s of [] \<Rightarrow> [] | _ # rest \<Rightarrow> split sep rest)"
  by pat_completeness auto
termination
proof (relation "measure (\<lambda>(sep, s). length s)")
  fix sep :: char and s :: string and x21 :: char and x22 :: string
  assume "dropWhile (\<lambda>x. x \<noteq> sep) s = x21 # x22"
  then have "Suc (length x22) = length (dropWhile (\<lambda>x. x \<noteq> sep) s)"
    by simp
  also have "\<dots> \<le> length s"
    by (rule length_dropWhile_le)
  finally show "((sep, x22), (sep, s)) \<in> measure (\<lambda>(sep, s). length s)"
    by simp
qed simp

declare split.simps [simp del]

text \<open>\<^verbatim>\<open>xs.join(sep)\<close>.\<close>

fun join :: "char \<Rightarrow> string list \<Rightarrow> string" where
  "join sep [] = []"
| "join sep [x] = x"
| "join sep (x # y # ys) = x @ sep # join sep (y # ys)"

text \<open>\<^verbatim>\<open>s.trim()\<close>.\<close>

definition trim :: "string \<Rightarrow> string" where
  "trim s = rev (dropWhile isSpace (rev (dropWhile isSpace s)))"

text \<open>\<^verbatim>\<open>s.substring(1)\<close> and \<^verbatim>\<open>s.slice(0, -1)\<close>.\<close>

definition substring1 :: "string \<Rightarrow> string" where
  "substring1 s = drop 1 s"

definition slice0m1 :: "string \<Rightarrow> string" where
  "slice0m1 s = take (length s - 1) s"

text \<open>\<^verbatim>\<open>xs.findIndex(p)\<close>: the first index whose element satisfies \<open>p\<close>, or -1.\<close>

definition findIndex :: "('a \<Rightarrow> bool) \<Rightarrow> 'a list \<Rightarrow> int" where
  "findIndex p xs =
     (if \<exists>x \<in> set xs. p x then int (length (takeWhile (\<lambda>x. \<not> p x) xs)) else - 1)"

text \<open>\<^verbatim>\<open>xs.filter((_, i) => p(i))\<close>: a filter on the index.\<close>

definition filterByIndex :: "(int \<Rightarrow> bool) \<Rightarrow> 'a list \<Rightarrow> 'a list" where
  "filterByIndex p xs =
     map fst (filter (\<lambda>(x, i). p i) (zip xs (map int [0..<length xs])))"

section \<open>Regular expressions\<close>

text \<open>
  The two patterns of \<^verbatim>\<open>matchTags\<close> use character classes, \<^verbatim>\<open>?\<close>, \<^verbatim>\<open>*\<close>,
  \<^verbatim>\<open>+\<close>, an alternative and \<^verbatim>\<open>$\<close>. Groups capture nothing that the code reads.
  The matcher is the backtracking one of the language: \<open>rmatch r s\<close> lists, in the order
  in which backtracking tries them, what is left of \<open>s\<close> after a match of \<open>r\<close> at its
  start. Quantifiers are greedy, and an iteration of \<^verbatim>\<open>*\<close> that consumes nothing is
  rejected.
\<close>

datatype regex =
    Class "char \<Rightarrow> bool"
  | Eoi
  | Opt regex
  | Star regex
  | Alt regex regex
  | Seq regex regex

definition Plus :: "regex \<Rightarrow> regex" where
  "Plus r = Seq r (Star r)"

fun rmatch :: "regex \<Rightarrow> string \<Rightarrow> string list" where
  "rmatch (Class p) [] = []"
| "rmatch (Class p) (c # cs) = (if p c then [cs] else [])"
| "rmatch Eoi s = (if s = [] then [s] else [])"
| "rmatch (Opt r) s = rmatch r s @ [s]"
| "rmatch (Star r) s =
     concat (map (\<lambda>s'. if length s' < length s then rmatch (Star r) s' else [])
       (rmatch r s)) @ [s]"
| "rmatch (Alt a b) s = rmatch a s @ rmatch b s"
| "rmatch (Seq a b) s = concat (map (rmatch b) (rmatch a s))"

declare rmatch.simps(5) [simp del]

text \<open>
  \<^verbatim>\<open>s.match(r)\<close> for a pattern with the \<^verbatim>\<open>g\<close> flag: every match, left to right,
  each search starting where the last match ended (one further after an empty match).
  The result \<^verbatim>\<open>null\<close> of the language is the empty list here.
\<close>

function jsmatch :: "regex \<Rightarrow> string \<Rightarrow> string list" where
  "jsmatch r [] = (case rmatch r [] of [] \<Rightarrow> [] | _ # _ \<Rightarrow> [[]])"
| "jsmatch r (c # cs) =
     (case rmatch r (c # cs) of
        [] \<Rightarrow> jsmatch r cs
      | rest # _ \<Rightarrow>
          if length rest < length (c # cs)
          then take (length (c # cs) - length rest) (c # cs) # jsmatch r rest
          else [] # jsmatch r cs)"
  by pat_completeness auto
termination
  by (relation "measure (\<lambda>(r, s). length s)") auto

declare jsmatch.simps [simp del]

text \<open>
  The classes of the patterns, under the \<^verbatim>\<open>i\<close> flag: \<^verbatim>\<open>[a-z]\<close>, \<^verbatim>\<open>[a-z0-9]\<close>,
  \<^verbatim>\<open>[!]\<close>, \<^verbatim>\<open>[:=]\<close> and \<^verbatim>\<open>[^\s]\<close>.
\<close>

definition isLetter :: "char \<Rightarrow> bool" where
  "isLetter c \<longleftrightarrow> c \<in> set ''abcdefghijklmnopqrstuvwxyzABCDEFGHIJKLMNOPQRSTUVWXYZ''"

definition isDigit :: "char \<Rightarrow> bool" where
  "isDigit c \<longleftrightarrow> c \<in> set ''0123456789''"

definition isAlnum :: "char \<Rightarrow> bool" where
  "isAlnum c \<longleftrightarrow> isLetter c \<or> isDigit c"

definition isBang :: "char \<Rightarrow> bool" where
  "isBang c \<longleftrightarrow> c = CHR ''!''"

definition isSep :: "char \<Rightarrow> bool" where
  "isSep c \<longleftrightarrow> c = CHR '':'' \<or> c = CHR ''=''"

definition nonSpace :: "char \<Rightarrow> bool" where
  "nonSpace c \<longleftrightarrow> \<not> isSpace c"

text \<open>The first group of both patterns: \<^verbatim>\<open>([a-z][a-z0-9]*[!]?[:=][^\s]+)\<close>.\<close>

definition tokenPattern :: regex where
  "tokenPattern =
     Seq (Class isLetter) (Seq (Star (Class isAlnum)) (Seq (Opt (Class isBang))
       (Seq (Class isSep) (Plus (Class nonSpace)))))"

definition filterPattern :: "bool \<Rightarrow> regex" where
  "filterPattern matchEnd =
     (if matchEnd then Seq tokenPattern (Alt Eoi (Class isSpace))
      else Seq tokenPattern (Class isSpace))"

section \<open>Filters, props and state\<close>

datatype filter_type = Include | Exclude | EnumType

datatype filter_value = Str string | Arr "string list"

record enum_entry =
  label :: string
  color :: string
  entry_value :: string

record Filter =
  ftype :: filter_type
  key :: string
  fvalue :: filter_value
  persistent :: "bool option"
  fenum :: "enum_entry list option"

text \<open>
  A prop that is \<open>None\<close> was not passed: the component sets a default for
  \<^verbatim>\<open>placeholder\<close> only, and tests \<^verbatim>\<open>defaultFilters\<close> against \<^verbatim>\<open>null\<close> in places.
  \<open>columns\<close> holds what \<^verbatim>\<open>Object.keys\<close> gives for the prop, when the prop is there;
  \<open>onFilterChange\<close> says whether a callback was passed.
\<close>

record Props =
  tableKey :: "string option"
  columns :: "string list option"
  defaultFilters :: "Filter list option"
  onFilterChange :: bool

record State =
  filters :: "Filter list"
  focusedToken :: int
  searchTerm :: string
  hasFocus :: bool

text \<open>The input element behind \<^verbatim>\<open>_inputRef\<close>: its text, and whether it has the focus.\<close>

record HTMLInputElement =
  input_value :: string
  focused :: bool

text \<open>
  A mounted component: its state, \<^verbatim>\<open>_inputRef\<close>, and the arguments of the last call
  of the debounced \<^verbatim>\<open>matchTags\<close> that has not run yet.
\<close>

record Component =
  state :: State
  inputRef :: "HTMLInputElement option"
  matchTagsPending :: "(string \<times> bool) option"

record KeyboardEvent =
  e_key :: string
  metaKey :: bool
  ctrlKey :: bool
  defaultPrevented :: bool

datatype error = TypeError

section \<open>The methods of the component\<close>

definition hasFocus_method :: "State \<Rightarrow> bool" where
  "hasFocus_method st \<longleftrightarrow> focusedToken st \<noteq> - 1 \<or> hasFocus st"

text \<open>
  A method that can throw gives the state it leaves behind and the error, if it threw.
  \<open>addFilter\<close> reads \<^verbatim>\<open>this.props.defaultFilters[filterIndex]\<close> when a filter with the
  key is there; with the prop not passed that read throws, before \<^verbatim>\<open>setState\<close>.
\<close>

definition addFilter :: "Props \<Rightarrow> State \<Rightarrow> Filter \<Rightarrow> State \<times> error option" where
  "addFilter props st new_filter =
     (let filterIndex = findIndex (\<lambda>f. key f = key new_filter) (filters st) in
      if filterIndex > - 1 then
        (case defaultFilters props of
           None \<Rightarrow> (st, Some TypeError)
         | Some dfs \<Rightarrow>
             (let i = nat filterIndex;
                  defaultFilter = (if i < length dfs then Some (dfs ! i) else None)
              in case defaultFilter of
                   None \<Rightarrow> (st\<lparr>filters := filters st\<rparr>, None)
                 | Some d \<Rightarrow>
                     if ftype d = EnumType \<and> ftype (filters st ! i) = EnumType
                     then (st\<lparr>filters :=
                                 (filters st)[i := (filters st ! i)\<lparr>fenum := fenum d\<rparr>]\<rparr>,
                           None)
                     else (st\<lparr>filters := filters st\<rparr>, None)))
      else
        (st\<lparr>filters :=
              (if persistent new_filter = Some True then new_filter # filters st
               else filters st @ [new_filter]),
            focusedToken := - 1\<rparr>,
         None))"

text \<open>The object that the callback of \<^verbatim>\<open>match.forEach\<close> builds from one match.\<close>

definition parseFilter :: "string \<Rightarrow> Filter" where
  "parseFilter matched =
     (let separator =
            (if indexOf matched CHR '':'' > indexOf matched CHR ''='' then CHR '':''
             else CHR ''='');
          parts = split separator matched;
          key0 = hd parts;
          value0 = trim (join separator (tl parts));
          (type1, value1) =
            (if indexOf value0 CHR ''!'' = 0 then (Exclude, substring1 value0)
             else (Include, value0));
          (type2, key2) =
            (if indexOf key0 CHR ''!'' = int (length key0) - 1 then (Exclude, slice0m1 key0)
             else (type1, key0))
      in \<lparr>ftype = type2, key = key2, fvalue = Str value1, persistent = None,
           fenum = None\<rparr>)"

text \<open>
  A run of the function that \<^verbatim>\<open>debounce\<close> wraps: the state it leaves behind, the
  arguments of the calls of \<open>addFilter\<close> it made, in order, and the error if a call threw.
\<close>

record MatchTagsRun =
  run_state :: State
  run_calls :: "Filter list"
  run_thrown :: "error option"

text \<open>
  \<^verbatim>\<open>match.forEach\<close> with its callback: each match is parsed and passed to \<open>addFilter\<close>;
  an error thrown by \<open>addFilter\<close> ends the loop, and the later matches are not looked at.
\<close>

fun forEach_match :: "Props \<Rightarrow> MatchTagsRun \<Rightarrow> string list \<Rightarrow> MatchTagsRun" where
  "forEach_match props run [] = run"
| "forEach_match props run (matched # rest) =
     (let new_filter = parseFilter matched;
          (st', thrown) = addFilter props (run_state run) new_filter;
          run' = \<lparr>run_state = st', run_calls = run_calls run @ [new_filter],
                  run_thrown = thrown\<rparr>
      in if thrown = None then forEach_match props run' rest else run')"

text \<open>
  The function that \<^verbatim>\<open>debounce\<close> wraps. Its last statement assigns to the parameter
  \<^verbatim>\<open>searchTerm\<close> (\<open>search\<close> here) only, and changes nothing of the component.
\<close>

definition matchTags :: "Props \<Rightarrow> State \<Rightarrow> string \<Rightarrow> bool \<Rightarrow> MatchTagsRun" where
  "matchTags props st search matchEnd =
     (let match = jsmatch (filterPattern matchEnd) search;
          run = \<lparr>run_state = st, run_calls = [], run_thrown = None\<rparr>
      in if match \<noteq> [] then forEach_match props run match else run)"

text \<open>
  A call of the debounced \<^verbatim>\<open>matchTags\<close> records its arguments; when the timer of
  \<^verbatim>\<open>debounce\<close> expires, the wrapped function runs on the last ones recorded, and an
  error it throws leaves the timer's callback.
\<close>

definition matchTags_debounced :: "Component \<Rightarrow> string \<Rightarrow> bool \<Rightarrow> Component" where
  "matchTags_debounced c search matchEnd =
     c\<lparr>matchTagsPending := Some (search, matchEnd)\<rparr>"

definition matchTags_timer :: "Props \<Rightarrow> Component \<Rightarrow> Component \<times> error option" where
  "matchTags_timer props c =
     (case matchTagsPending c of
        None \<Rightarrow> (c, None)
      | Some (search, matchEnd) \<Rightarrow>
          (let run = matchTags props (state c) search matchEnd
           in (c\<lparr>state := run_state run, matchTagsPending := None\<rparr>, run_thrown run)))"

definition onChangeSearchTerm :: "Component \<Rightarrow> string \<Rightarrow> Component" where
  "onChangeSearchTerm c target_value =
     matchTags_debounced (c\<lparr>state := (state c)\<lparr>searchTerm := target_value\<rparr>\<rparr>)
       target_value False"

text \<open>\<^verbatim>\<open>_inputRef.focus()\<close> and \<^verbatim>\<open>_inputRef.blur()\<close>, on an attached input.\<close>

definition focus :: "HTMLInputElement \<Rightarrow> HTMLInputElement" where
  "focus el = el\<lparr>focused := True\<rparr>"

definition blur :: "HTMLInputElement \<Rightarrow> HTMLInputElement" where
  "blur el = el\<lparr>focused := False\<rparr>"

definition removeFilter :: "Component \<Rightarrow> int \<Rightarrow> Component" where
  "removeFilter c index =
     (let filters' = filterByIndex (\<lambda>i. i \<noteq> index) (filters (state c));
          c' = c\<lparr>state := (state c)\<lparr>filters := filters', focusedToken := - 1\<rparr>\<rparr>
      in case inputRef c' of
           None \<Rightarrow> c'
         | Some el \<Rightarrow> c'\<lparr>inputRef := Some (focus el)\<rparr>)"

definition clear :: "State \<Rightarrow> State" where
  "clear st =
     st\<lparr>filters := filter (\<lambda>f. persistent f \<noteq> None \<and> persistent f = Some True) (filters st),
        searchTerm := []\<rparr>"

definition ctrlOrCmd :: "string \<Rightarrow> KeyboardEvent \<Rightarrow> bool" where
  "ctrlOrCmd platform e \<longleftrightarrow>
     (metaKey e \<and> platform = ''darwin'') \<or> (ctrlKey e \<and> platform \<noteq> ''darwin'')"

text \<open>
  The handler of \<^verbatim>\<open>keydown\<close>. \<open>platform\<close> is \<^verbatim>\<open>process.platform\<close>. Reading a
  property of \<^verbatim>\<open>undefined\<close>, which an index outside an array gives, throws.
\<close>

definition onKeyDown ::
  "string \<Rightarrow> Component \<Rightarrow> KeyboardEvent \<Rightarrow> error + (Component \<times> KeyboardEvent)" where
  "onKeyDown platform c e =
     (let st = state c in
      if e_key e = ''f'' \<and> ctrlOrCmd platform e \<and> inputRef c \<noteq> None then
        (case inputRef c of
           None \<Rightarrow> Inr (c, e\<lparr>defaultPrevented := True\<rparr>)
         | Some el \<Rightarrow> Inr (c\<lparr>inputRef := Some (focus el)\<rparr>, e\<lparr>defaultPrevented := True\<rparr>))
      else if e_key e = ''Escape'' \<and> inputRef c \<noteq> None then
        Inr (c\<lparr>inputRef := map_option blur (inputRef c),
               state := st\<lparr>searchTerm := []\<rparr>\<rparr>, e)
      else if e_key e = ''Backspace'' \<and> hasFocus_method st then
        (if focusedToken st = - 1 \<and> searchTerm st = [] \<and> inputRef c \<noteq> None then
           (if filters st = [] then Inl TypeError
            else if \<not> (persistent (last (filters st)) = Some True) then
              Inr (c\<lparr>inputRef := map_option blur (inputRef c),
                     state := st\<lparr>focusedToken := int (length (filters st)) - 1\<rparr>\<rparr>, e)
            else Inr (removeFilter c (focusedToken st), e))
         else Inr (removeFilter c (focusedToken st), e))
      else if e_key e = ''Delete'' \<and> hasFocus_method st \<and> focusedToken st > - 1 then
        Inr (removeFilter c (focusedToken st), e)
      else if e_key e = ''Enter'' \<and> hasFocus_method st \<and> inputRef c \<noteq> None then
        (case inputRef c of
           None \<Rightarrow> Inr (c, e)
         | Some el \<Rightarrow> Inr (matchTags_debounced c (input_value el) True, e))
      else Inr (c, e))"

section \<open>Persistence\<close>

text \<open>
  \<open>toUpperCase\<close> is the method of the runtime's strings, a parameter here. A prop
  that is \<open>None\<close> was not passed, the result \<open>None\<close> is \<^verbatim>\<open>undefined\<close>, and
  \<open>truthy\<close> is the test that \<^verbatim>\<open>if\<close> and \<^verbatim>\<open>||\<close> make on such a value.
\<close>

definition truthy :: "string option \<Rightarrow> bool" where
  "truthy v \<longleftrightarrow> (case v of None \<Rightarrow> False | Some s \<Rightarrow> s \<noteq> [])"

definition getTableKey :: "(string \<Rightarrow> string) \<Rightarrow> Props \<Rightarrow> string option" where
  "getTableKey toUpperCase props =
     (if truthy (tableKey props) then tableKey props
      else case columns props of
             Some ks \<Rightarrow> Some (''TABLE_COLUMNS_'' @ toUpperCase (join CHR ''_'' ks))
           | None \<Rightarrow> None)"

definition getPersistKey :: "(string \<Rightarrow> string) \<Rightarrow> Props \<Rightarrow> string" where
  "getPersistKey toUpperCase props =
     ''SEARCHABLE_STORAGE_KEY_'' @
       (case getTableKey toUpperCase props of None \<Rightarrow> [] | Some k \<Rightarrow> k)"

text \<open>
  What \<^verbatim>\<open>componentDidUpdate\<close> stores is the JSON text of an object with the search
  term and the filters; the model stores that object. \<^verbatim>\<open>localStorage\<close> is a map from
  keys to stored values.
\<close>

record Saved =
  saved_searchTerm :: string
  saved_filters :: "Filter list"

type_synonym localStorage = "string \<rightharpoonup> Saved"

text \<open>The loop that merges the default filters into a copy of the filters.\<close>

fun mergeDefaults :: "Filter list \<Rightarrow> Filter list \<Rightarrow> Filter list" where
  "mergeDefaults mergedFilters [] = mergedFilters"
| "mergeDefaults mergedFilters (defaultFilter # ds) =
     (let filterIndex = findIndex (\<lambda>f. key f = key defaultFilter) mergedFilters in
      if filterIndex > - 1
      then mergeDefaults (mergedFilters[nat filterIndex := defaultFilter]) ds
      else mergeDefaults (mergedFilters @ [defaultFilter]) ds)"

text \<open>
  \<^verbatim>\<open>componentDidUpdate\<close>. The arrays are compared by identity in the source:
  \<open>sameFilters\<close> says whether \<^verbatim>\<open>prevState.filters\<close> and \<^verbatim>\<open>this.state.filters\<close> are
  the same array, \<open>sameDefaultFilters\<close> the same of the two \<^verbatim>\<open>defaultFilters\<close> props.
  The result is the state, the storage, the argument of the call of
  \<^verbatim>\<open>onFilterChange\<close> if there was one, and the error if the method threw: the merge
  calls \<^verbatim>\<open>forEach\<close> on the prop, which throws when the prop was not passed.
\<close>

definition componentDidUpdate ::
  "(string \<Rightarrow> string) \<Rightarrow> Props \<Rightarrow> bool \<Rightarrow> State \<Rightarrow> bool \<Rightarrow> State \<Rightarrow> localStorage
     \<Rightarrow> State \<times> localStorage \<times> Filter list option \<times> error option" where
  "componentDidUpdate toUpperCase props sameDefaultFilters prevState sameFilters st storage =
     (if truthy (getTableKey toUpperCase props) \<and>
         (searchTerm prevState \<noteq> searchTerm st \<or> \<not> sameFilters)
      then
        (st,
         storage(getPersistKey toUpperCase props \<mapsto>
           \<lparr>saved_searchTerm = searchTerm st, saved_filters = filters st\<rparr>),
         if onFilterChange props then Some (filters st) else None,
         None)
      else if \<not> sameDefaultFilters then
        (case defaultFilters props of
           None \<Rightarrow> (st, storage, None, Some TypeError)
         | Some dfs \<Rightarrow> (st\<lparr>filters := mergeDefaults (filters st) dfs\<rparr>, storage, None, None))
      else (st, storage, None, None))"

section \<open>Example inputs\<close>

definition asciiUpper :: "string \<Rightarrow> string" where
  "asciiUpper s =
     map (\<lambda>c. case map_of (zip ''abcdefghijklmnopqrstuvwxyz'' ''ABCDEFGHIJKLMNOPQRSTUVWXYZ'') c of
                 None \<Rightarrow> c | Some u \<Rightarrow> u) s"

definition ex_persistent :: Filter where
  "ex_persistent =
     \<lparr>ftype = Include, key = ''app'', fvalue = Str ''demo'', persistent = Some True,
      fenum = None\<rparr>"

definition ex_level :: Filter where
  "ex_level =
     \<lparr>ftype = Include, key = ''level'', fvalue = Str ''warn'', persistent = None,
      fenum = None\<rparr>"

definition ex_tag :: Filter where
  "ex_tag =
     \<lparr>ftype = Exclude, key = ''tag'', fvalue = Str ''net'', persistent = Some False,
      fenum = None\<rparr>"

definition ex_state :: State where
  "ex_state =
     \<lparr>filters = [ex_persistent, ex_level, ex_tag], focusedToken = - 1, searchTerm = [],
      hasFocus = True\<rparr>"

definition ex_input :: HTMLInputElement where
  "ex_input = \<lparr>input_value = ''pid:42'', focused = True\<rparr>"

definition ex_component :: Component where
  "ex_component = \<lparr>state = ex_state, inputRef = Some ex_input, matchTagsPending = None\<rparr>"

definition keydown :: "string \<Rightarrow> bool \<Rightarrow> bool \<Rightarrow> KeyboardEvent" where
  "keydown k meta ctrl =
     \<lparr>e_key = k, metaKey = meta, ctrlKey = ctrl, defaultPrevented = False\<rparr>"

definition ex_props :: Props where
  "ex_props =
     \<lparr>tableKey = None, columns = Some [''time'', ''msg''], defaultFilters = Some [],
      onFilterChange = True\<rparr>"

definition ex_bare :: Props where
  "ex_bare =
     \<lparr>tableKey = None, columns = None, defaultFilters = None, onFilterChange = False\<rparr>"

definition ex_empty :: State where
  "ex_empty = \<lparr>filters = [], focusedToken = - 1, searchTerm = [], hasFocus = True\<rparr>"

section \<open>Arrays\<close>

lemma filterByIndex_nths: "filterByIndex p xs = nths xs {i. p (int i)}"
  unfolding filterByIndex_def nths_def
  by (simp add: zip_map2 filter_map comp_def case_prod_unfold)

lemma nths_remove: "n < length xs \<Longrightarrow> nths xs {i. i \<noteq> n} = take n xs @ drop (Suc n) xs"
proof (induction xs arbitrary: n)
  case Nil
  then show ?case by simp
next
  case (Cons x xs)
  show ?case
  proof (cases n)
    case 0
    have "nths xs {j. Suc j \<noteq> 0} = xs" by (simp add: nths_all)
    with 0 show ?thesis by (simp add: nths_Cons)
  next
    case (Suc m)
    with Cons.prems have "m < length xs" by simp
    from Cons.IH[OF this] Suc show ?thesis by (simp add: nths_Cons)
  qed
qed

lemma filterByIndex_remove:
  assumes "0 \<le> i" and "i < int (length xs)"
  shows "filterByIndex (\<lambda>j. j \<noteq> i) xs = take (nat i) xs @ drop (Suc (nat i)) xs"
proof -
  from assms have "{j. int j \<noteq> i} = {j. j \<noteq> nat i}" by auto
  with assms show ?thesis by (simp add: filterByIndex_nths nths_remove)
qed

section \<open>The matcher on the patterns of the search box\<close>

lemma isLetter_nonSpace: "isLetter c \<Longrightarrow> \<not> isSpace c"
  by (auto simp: isLetter_def isSpace_def)

lemma isAlnum_nonSpace: "isAlnum c \<Longrightarrow> \<not> isSpace c"
  by (auto simp: isAlnum_def isLetter_def isDigit_def isSpace_def)

lemma isAlnum_plain: "isAlnum c \<Longrightarrow> c \<noteq> CHR '':'' \<and> c \<noteq> CHR ''='' \<and> c \<noteq> CHR ''!''"
  by (auto simp: isAlnum_def isLetter_def isDigit_def)

lemma isLetter_isAlnum: "isLetter c \<Longrightarrow> isAlnum c"
  by (simp add: isAlnum_def)

lemma isSep_nonSpace: "isSep c \<Longrightarrow> \<not> isSpace c"
  by (auto simp: isSep_def isSpace_def)

lemma isBang_nonSpace: "isBang c \<Longrightarrow> \<not> isSpace c"
  by (auto simp: isBang_def isSpace_def)

lemma isSpace_plain: "isSpace c \<Longrightarrow> c \<noteq> CHR '':'' \<and> c \<noteq> CHR ''='' \<and> c \<noteq> CHR ''!''"
  by (auto simp: isSpace_def)

lemma rmatch_Star_Class_Nil [simp]: "rmatch (Star (Class p)) [] = [[]]"
  by (simp add: rmatch.simps(5))

lemma rmatch_Star_Class_Cons [simp]:
  "rmatch (Star (Class p)) (c # cs) =
     (if p c then rmatch (Star (Class p)) cs @ [c # cs] else [c # cs])"
  by (simp add: rmatch.simps(5))

lemma Star_Class_sound:
  "x \<in> set (rmatch (Star (Class p)) s) \<Longrightarrow> \<exists>w. s = w @ x \<and> (\<forall>c \<in> set w. p c)"
proof (induction s)
  case Nil
  then show ?case by simp
next
  case (Cons c cs)
  show ?case
  proof (cases "x = c # cs")
    case True
    then show ?thesis by simp
  next
    case False
    with Cons.prems have pc: "p c" and "x \<in> set (rmatch (Star (Class p)) cs)"
      by (auto split: if_splits)
    with Cons.IH obtain w where "cs = w @ x" "\<forall>c \<in> set w. p c" by blast
    with pc have "c # cs = (c # w) @ x \<and> (\<forall>d \<in> set (c # w). p d)" by simp
    then show ?thesis by blast
  qed
qed

lemma Star_Class_complete:
  "\<forall>c \<in> set w. p c \<Longrightarrow> x \<in> set (rmatch (Star (Class p)) (w @ x))"
proof (induction w)
  case Nil
  show ?case by (cases x) simp_all
next
  case (Cons c w)
  then show ?case by simp
qed

lemma Class_iff: "x \<in> set (rmatch (Class p) s) \<longleftrightarrow> (\<exists>c. s = c # x \<and> p c)"
  by (cases s) auto


lemma Seq_iff:
  "x \<in> set (rmatch (Seq a b) s) \<longleftrightarrow> (\<exists>y \<in> set (rmatch a s). x \<in> set (rmatch b y))"
  by auto

lemma Opt_iff: "x \<in> set (rmatch (Opt r) s) \<longleftrightarrow> x \<in> set (rmatch r s) \<or> x = s"
  by auto

lemma tokenPattern_sound:
  assumes "x \<in> set (rmatch tokenPattern s)"
  shows "\<exists>w. s = w @ x \<and> w \<noteq> [] \<and> (\<forall>c \<in> set w. \<not> isSpace c)"
proof -
  from assms obtain s1 where
    1: "s1 \<in> set (rmatch (Class isLetter) s)" and
    r1: "x \<in> set (rmatch (Seq (Star (Class isAlnum)) (Seq (Opt (Class isBang))
           (Seq (Class isSep) (Seq (Class nonSpace) (Star (Class nonSpace)))))) s1)"
    unfolding tokenPattern_def Plus_def Seq_iff[of x "Class isLetter"] by blast
  from r1 obtain s2 where
    2: "s2 \<in> set (rmatch (Star (Class isAlnum)) s1)" and
    r2: "x \<in> set (rmatch (Seq (Opt (Class isBang))
           (Seq (Class isSep) (Seq (Class nonSpace) (Star (Class nonSpace))))) s2)"
    unfolding Seq_iff[of x "Star (Class isAlnum)"] by blast
  from r2 obtain s3 where
    3: "s3 \<in> set (rmatch (Opt (Class isBang)) s2)" and
    r3: "x \<in> set (rmatch (Seq (Class isSep) (Seq (Class nonSpace) (Star (Class nonSpace)))) s3)"
    unfolding Seq_iff[of x "Opt (Class isBang)"] by blast
  from r3 obtain s4 where
    4: "s4 \<in> set (rmatch (Class isSep) s3)" and
    r4: "x \<in> set (rmatch (Seq (Class nonSpace) (Star (Class nonSpace))) s4)"
    unfolding Seq_iff[of x "Class isSep"] by blast
  from r4 obtain s5 where
    5: "s5 \<in> set (rmatch (Class nonSpace) s4)" and
    6: "x \<in> set (rmatch (Star (Class nonSpace)) s5)"
    unfolding Seq_iff[of x "Class nonSpace"] by blast
  from 1 obtain l where l: "s = l # s1" "isLetter l" by (auto simp: Class_iff)
  from 2 obtain w2 where w2: "s1 = w2 @ s2" "\<forall>c \<in> set w2. isAlnum c"
    by (blast dest: Star_Class_sound)
  from 3 have "s3 = s2 \<or> (\<exists>b. s2 = b # s3 \<and> isBang b)"
    unfolding Opt_iff Class_iff by blast
  then obtain w3 where w3: "s2 = w3 @ s3" "\<forall>c \<in> set w3. isBang c"
    by (metis append_Cons append_Nil empty_iff list.set(1) set_ConsD)
  from 4 obtain p where p: "s3 = p # s4" "isSep p" by (auto simp: Class_iff)
  from 5 obtain n where n: "s4 = n # s5" "nonSpace n" by (auto simp: Class_iff)
  from 6 obtain w6 where w6: "s5 = w6 @ x" "\<forall>c \<in> set w6. nonSpace c"
    by (blast dest: Star_Class_sound)
  let ?w = "l # w2 @ w3 @ p # n # w6"
  have "s = ?w @ x" using l w2 w3 p n w6 by simp
  moreover have "\<forall>c \<in> set ?w. \<not> isSpace c"
    using l w2 w3 p n w6
    by (auto simp: nonSpace_def dest: isLetter_nonSpace isAlnum_nonSpace isBang_nonSpace
        isSep_nonSpace)
  ultimately show ?thesis by blast
qed

lemma Seq_complete:
  "y \<in> set (rmatch a s) \<Longrightarrow> x \<in> set (rmatch b y) \<Longrightarrow> x \<in> set (rmatch (Seq a b) s)"
  by auto

lemma tokenPattern_complete:
  assumes "isLetter l" and "\<forall>c \<in> set k. isAlnum c" and "b = [] \<or> b = ''!''"
    and "isSep p" and "v \<noteq> []" and "\<forall>c \<in> set v. \<not> isSpace c"
  shows "x \<in> set (rmatch tokenPattern (l # k @ b @ p # v @ x))"
proof -
  from assms(5) obtain n v' where v: "v = n # v'" by (cases v) auto
  with assms(6) have n: "nonSpace n" and v': "\<forall>c \<in> set v'. nonSpace c"
    by (simp_all add: nonSpace_def)
  have 6: "x \<in> set (rmatch (Star (Class nonSpace)) (v' @ x))"
    by (rule Star_Class_complete[OF v'])
  have 5: "v' @ x \<in> set (rmatch (Class nonSpace) (v @ x))"
    using n v by simp
  have 56: "x \<in> set (rmatch (Plus (Class nonSpace)) (v @ x))"
    unfolding Plus_def by (rule Seq_complete[OF 5 6])
  have 4: "v @ x \<in> set (rmatch (Class isSep) (p # v @ x))"
    using assms(4) by simp
  have 3: "p # v @ x \<in> set (rmatch (Opt (Class isBang)) (b @ p # v @ x))"
    using assms(3) by (auto simp: isBang_def)
  have 2: "b @ p # v @ x \<in> set (rmatch (Star (Class isAlnum)) (k @ b @ p # v @ x))"
    by (rule Star_Class_complete[OF assms(2)])
  have 1: "k @ b @ p # v @ x \<in> set (rmatch (Class isLetter) (l # k @ b @ p # v @ x))"
    using assms(1) by simp
  show ?thesis
    unfolding tokenPattern_def
    by (rule Seq_complete[OF 1 Seq_complete[OF 2 Seq_complete[OF 3 Seq_complete[OF 4 56]]]])
qed

lemma filterPattern_sound:
  assumes "x \<in> set (rmatch (filterPattern me) s)"
  shows "\<exists>w. w \<noteq> [] \<and> (\<forall>c \<in> set w. \<not> isSpace c) \<and>
           ((\<exists>sp. isSpace sp \<and> s = w @ sp # x) \<or> (me \<and> s = w \<and> x = []))"
proof -
  from assms obtain y where y: "y \<in> set (rmatch tokenPattern s)"
    and x: "x \<in> set (rmatch (if me then Alt Eoi (Class isSpace) else Class isSpace) y)"
    unfolding filterPattern_def by (cases me) (simp_all only: if_True if_False Seq_iff, blast+)
  from tokenPattern_sound[OF y] obtain w where
    w: "s = w @ y" "w \<noteq> []" "\<forall>c \<in> set w. \<not> isSpace c" by blast
  have "(\<exists>sp. isSpace sp \<and> y = sp # x) \<or> (me \<and> y = [] \<and> x = [])"
  proof (cases me)
    case True
    with x have "x \<in> set (rmatch Eoi y) \<or> x \<in> set (rmatch (Class isSpace) y)"
      by simp
    then show ?thesis using True unfolding Class_iff by (auto split: if_splits)
  next
    case False
    with x have "x \<in> set (rmatch (Class isSpace) y)" by simp
    then show ?thesis unfolding Class_iff by blast
  qed
  with w show ?thesis by (metis append_Nil2)
qed


lemma run_unique:
  assumes "\<forall>c \<in> set w. \<not> isSpace c" and "isSpace a"
    and "\<forall>c \<in> set w'. \<not> isSpace c" and "isSpace a'"
    and "w @ a # x = w' @ a' # x'"
  shows "w = w' \<and> x = x'"
  using assms
proof (induction w arbitrary: w')
  case Nil
  then show ?case by (cases w') auto
next
  case (Cons c w)
  then show ?case by (cases w') auto
qed

lemma filterPattern_first:
  assumes "\<forall>c \<in> set tok. \<not> isSpace c" and "isSpace sp"
    and "rest \<in> set (rmatch (filterPattern me) (tok @ sp # rest))"
  shows "\<exists>xs. rmatch (filterPattern me) (tok @ sp # rest) = rest # xs"
proof -
  from assms(3) obtain x xs where
    eq: "rmatch (filterPattern me) (tok @ sp # rest) = x # xs"
    by (cases "rmatch (filterPattern me) (tok @ sp # rest)") auto
  then have "x \<in> set (rmatch (filterPattern me) (tok @ sp # rest))" by simp
  from filterPattern_sound[OF this] obtain w where
    w: "\<forall>c \<in> set w. \<not> isSpace c"
      "(\<exists>sp'. isSpace sp' \<and> tok @ sp # rest = w @ sp' # x) \<or> (tok @ sp # rest = w \<and> x = [])"
    by blast
  from w(1) assms(2) have "tok @ sp # rest \<noteq> w" by auto
  with w(2) obtain sp' where "isSpace sp'" "tok @ sp # rest = w @ sp' # x" by blast
  with run_unique[OF assms(1,2) w(1)] have "x = rest" by blast
  with eq show ?thesis by blast
qed

lemma filterPattern_first_end:
  assumes "\<forall>c \<in> set tok. \<not> isSpace c"
    and "[] \<in> set (rmatch (filterPattern True) tok)"
  shows "\<exists>xs. rmatch (filterPattern True) tok = [] # xs"
proof -
  from assms(2) obtain x xs where eq: "rmatch (filterPattern True) tok = x # xs"
    by (cases "rmatch (filterPattern True) tok") auto
  then have "x \<in> set (rmatch (filterPattern True) tok)" by simp
  from filterPattern_sound[OF this] obtain w where
    "(\<exists>sp'. isSpace sp' \<and> tok = w @ sp' # x) \<or> (tok = w \<and> x = [])"
    by blast
  with assms(1) have "x = []" by auto
  with eq show ?thesis by blast
qed

lemma after_match:
  assumes "\<forall>c \<in> set w. \<not> isSpace c" and "isSpace sp'" and "isSpace l"
    and "pre0 @ l # T = w @ sp' # x"
  shows "\<exists>pre'. x = pre' @ T \<and> length pre' \<le> length pre0 \<and> (pre' = [] \<or> isSpace (last pre'))"
  using assms
proof (induction w arbitrary: pre0)
  case Nil
  show ?case
  proof (cases pre0)
    case Nil
    with Nil.prems show ?thesis by simp
  next
    case (Cons a p)
    with Nil.prems have "x = (p @ [l]) @ T" by simp
    with Cons Nil.prems(3) show ?thesis
      by (metis last_snoc length_Cons length_append_singleton order_refl)
  qed
next
  case (Cons c w)
  show ?case
  proof (cases pre0)
    case Nil
    with Cons.prems show ?thesis by auto
  next
    case (Cons a p)
    with Cons.prems have "\<forall>c \<in> set w. \<not> isSpace c" "p @ l # T = w @ sp' # x" by simp_all
    from Cons.IH[OF this(1) Cons.prems(2,3) this(2)] Cons show ?thesis
      by auto
  qed
qed

lemma jsmatch_after_prefix:
  assumes "rmatch (filterPattern me) T = rest # xs" and "length rest < length T"
  shows "pre = [] \<or> isSpace (last pre) \<Longrightarrow>
         take (length T - length rest) T \<in> set (jsmatch (filterPattern me) (pre @ T))"
proof (induction "length pre" arbitrary: pre rule: less_induct)
  case less
  show ?case
  proof (cases pre)
    case Nil
    from assms(2) obtain c cs where T: "T = c # cs" by (cases T) auto
    with assms Nil show ?thesis by (simp add: jsmatch.simps)
  next
    case (Cons c cs)
    with less.prems have sp: "isSpace (last pre)" by simp
    from Cons obtain pre0 l where pre: "pre = pre0 @ [l]" and l: "isSpace l"
      using sp by (metis append_butlast_last_id list.distinct(1))
    show ?thesis
    proof (cases "rmatch (filterPattern me) (pre @ T)")
      case Nil
      have "cs = [] \<or> isSpace (last cs)"
        using Cons sp by (cases cs) auto
      from less.hyps[OF _ this] Cons
      have "take (length T - length rest) T \<in> set (jsmatch (filterPattern me) (cs @ T))"
        by simp
      with Nil Cons show ?thesis by (simp add: jsmatch.simps)
    next
      case (Cons x ys)
      then have "x \<in> set (rmatch (filterPattern me) (pre @ T))" by simp
      from filterPattern_sound[OF this] obtain w where
        w: "\<forall>c \<in> set w. \<not> isSpace c"
          "(\<exists>sp'. isSpace sp' \<and> pre @ T = w @ sp' # x) \<or> (pre @ T = w \<and> x = [])"
        by blast
      from w(1) l pre have "pre @ T \<noteq> w" by auto
      with w(2) obtain sp' where sp': "isSpace sp'" "pre @ T = w @ sp' # x" by blast
      then have "pre0 @ l # T = w @ sp' # x" using pre by simp
      from after_match[OF w(1) sp'(1) l this] obtain pre' where
        p: "x = pre' @ T" "length pre' \<le> length pre0" "pre' = [] \<or> isSpace (last pre')"
        by blast
      from p(2) pre have "length pre' < length pre" by simp
      from less.hyps[OF this p(3)] p(1)
      have "take (length T - length rest) T \<in> set (jsmatch (filterPattern me) x)" by simp
      moreover have "length x < length (pre @ T)" using sp'(2) by simp
      ultimately show ?thesis
        using Cons \<open>pre = c # cs\<close> by (simp add: jsmatch.simps)
    qed
  qed
qed

lemma jsmatch_False_ends_space:
  "m \<in> set (jsmatch (filterPattern False) s) \<Longrightarrow> m \<noteq> [] \<and> isSpace (last m)"
proof (induction "filterPattern False" s rule: jsmatch.induct)
  case 1
  have "rmatch (filterPattern False) [] = []"
  proof (cases "rmatch (filterPattern False) []")
    case (Cons x ys)
    then have "x \<in> set (rmatch (filterPattern False) [])" by simp
    from filterPattern_sound[OF this] show ?thesis by auto
  qed simp
  with 1 show ?case by (simp add: jsmatch.simps)
next
  case (2 c cs)
  show ?case
  proof (cases "rmatch (filterPattern False) (c # cs)")
    case Nil
    with 2 show ?thesis by (simp add: jsmatch.simps)
  next
    case (Cons x ys)
    then have "x \<in> set (rmatch (filterPattern False) (c # cs))" by simp
    from filterPattern_sound[OF this] obtain w sp where
      w: "w \<noteq> []" "isSpace sp" "c # cs = w @ sp # x" by blast
    then have len: "length x < length (c # cs)"
      and tk: "take (length (c # cs) - length x) (c # cs) = w @ [sp]"
      by simp_all
    from 2(4) Cons len
    have "m = take (length (c # cs) - length x) (c # cs) \<or>
          m \<in> set (jsmatch (filterPattern False) x)"
      by (simp add: jsmatch.simps)
    then show ?thesis
    proof
      assume "m = take (length (c # cs) - length x) (c # cs)"
      with tk w(2) show ?thesis by simp
    next
      assume "m \<in> set (jsmatch (filterPattern False) x)"
      with 2(2)[OF Cons len] show ?thesis by simp
    qed
  qed
qed

section \<open>Strings\<close>

lemma indexOf_absent: "c \<notin> set s \<Longrightarrow> indexOf s c = - 1"
  by (simp add: indexOf_def)

lemma takeWhile_neq: "c \<notin> set xs \<Longrightarrow> takeWhile (\<lambda>x. x \<noteq> c) (xs @ c # ys) = xs"
  by (induction xs) auto

lemma dropWhile_neq: "c \<notin> set xs \<Longrightarrow> dropWhile (\<lambda>x. x \<noteq> c) (xs @ c # ys) = c # ys"
  by (induction xs) auto

lemma dropWhile_all: "\<forall>c \<in> set t. P c \<Longrightarrow> dropWhile P (t @ r) = dropWhile P r"
  by (induction t) auto

lemma indexOf_first: "c \<notin> set xs \<Longrightarrow> indexOf (xs @ c # ys) c = int (length xs)"
  by (simp add: indexOf_def takeWhile_neq)

lemma indexOf_zero: "indexOf s c = 0 \<longleftrightarrow> s \<noteq> [] \<and> hd s = c"
  by (cases s) (auto simp: indexOf_def)

lemma split_Cons: "\<exists>y ys. split sep s = y # ys"
  by (subst split.simps) blast

lemma split_first: "sep \<notin> set k \<Longrightarrow> split sep (k @ sep # r) = k # split sep r"
proof -
  assume a: "sep \<notin> set k"
  have "split sep (k @ sep # r) = takeWhile (\<lambda>x. x \<noteq> sep) (k @ sep # r) #
       (case dropWhile (\<lambda>x. x \<noteq> sep) (k @ sep # r) of [] \<Rightarrow> [] | _ # rest \<Rightarrow> split sep rest)"
    by (rule split.simps)
  then show ?thesis
    by (simp only: takeWhile_neq[OF a] dropWhile_neq[OF a] list.case)
qed


lemma join_split: "join sep (split sep s) = s"
proof (induction sep s rule: split.induct)
  case (1 sep s)
  have unfold: "split sep s = takeWhile (\<lambda>x. x \<noteq> sep) s #
       (case dropWhile (\<lambda>x. x \<noteq> sep) s of [] \<Rightarrow> [] | _ # rest \<Rightarrow> split sep rest)"
    by (rule split.simps)
  have td: "takeWhile (\<lambda>x. x \<noteq> sep) s @ dropWhile (\<lambda>x. x \<noteq> sep) s = s"
    by (rule takeWhile_dropWhile_id)
  show ?case
  proof (cases "dropWhile (\<lambda>x. x \<noteq> sep) s")
    case Nil
    with td have "takeWhile (\<lambda>x. x \<noteq> sep) s = s" by simp
    with Nil unfold show ?thesis by (simp only: list.case join.simps)
  next
    case (Cons a rest)
    have "\<not> (hd (dropWhile (\<lambda>x. x \<noteq> sep) s) \<noteq> sep)"
      by (rule hd_dropWhile) (simp add: Cons)
    with Cons have a: "a = sep" by simp
    obtain y ys where y: "split sep rest = y # ys"
      using split_Cons by blast
    from 1[OF Cons] have "join sep (split sep rest) = rest" .
    with y have "join sep (takeWhile (\<lambda>x. x \<noteq> sep) s # split sep rest) =
        takeWhile (\<lambda>x. x \<noteq> sep) s @ sep # rest"
      by simp
    also have "\<dots> = s"
      using Cons a td by simp
    finally show ?thesis using Cons unfold by (simp only: list.case)
  qed
qed

lemma trim_value:
  assumes "v \<noteq> []" and "\<forall>c \<in> set v. \<not> isSpace c" and "\<forall>c \<in> set t. isSpace c"
  shows "trim (v @ t) = v"
proof -
  from assms(1,2) have "\<not> isSpace (hd v)" "\<not> isSpace (last v)" by simp_all
  then have 1: "dropWhile isSpace (v @ t) = v @ t"
    and 2: "dropWhile isSpace (rev v) = rev v"
    using assms(1) by (simp_all add: dropWhile_eq_self_iff hd_append hd_rev)
  have "dropWhile isSpace (rev t @ rev v) = dropWhile isSpace (rev v)"
    using assms(3) by (simp add: dropWhile_all)
  with 1 2 show ?thesis by (simp add: trim_def)
qed

lemma parseFilter_include:
  assumes "isLetter l" and "\<forall>c \<in> set k. isAlnum c"
    and "v \<noteq> []" and "\<forall>c \<in> set v. \<not> isSpace c" and "hd v \<noteq> CHR ''!''"
    and "CHR ''='' \<notin> set v" and "\<forall>c \<in> set t. isSpace c"
  shows "parseFilter ((l # k) @ CHR '':'' # v @ t) =
           \<lparr>ftype = Include, key = l # k, fvalue = Str v, persistent = None, fenum = None\<rparr>"
proof -
  let ?K = "l # k"
  let ?m = "?K @ CHR '':'' # v @ t"
  from assms(1,2) have K: "CHR '':'' \<notin> set ?K" "CHR ''='' \<notin> set ?K" "CHR ''!'' \<notin> set ?K"
    using isAlnum_plain isLetter_isAlnum by auto
  from assms(7) have t: "CHR ''='' \<notin> set t" using isSpace_plain by blast
  have i1: "indexOf ?m CHR '':'' = int (length ?K)"
    by (rule indexOf_first[OF K(1)])
  have i2: "indexOf ?m CHR ''='' = - 1"
    using K(2) t assms(6) by (simp add: indexOf_absent)
  have sp: "split CHR '':'' ?m = ?K # split CHR '':'' (v @ t)"
    using K(1) by (rule split_first)
  have tr: "trim (join CHR '':'' (split CHR '':'' (v @ t))) = v"
    by (simp add: join_split trim_value[OF assms(3,4,7)])
  have v0: "indexOf v CHR ''!'' \<noteq> 0"
    using assms(5) by (simp add: indexOf_zero)
  have k0: "indexOf ?K CHR ''!'' \<noteq> int (length ?K) - 1"
    using K(3) by (simp add: indexOf_absent)
  show ?thesis
    unfolding parseFilter_def i1 i2 using sp tr v0 k0 by (simp add: Let_def)
qed

lemma parseFilter_exclude:
  assumes "isLetter l" and "\<forall>c \<in> set k. isAlnum c"
    and "v \<noteq> []" and "\<forall>c \<in> set v. \<not> isSpace c" and "hd v \<noteq> CHR ''!''"
    and "CHR '':'' \<notin> set v" and "\<forall>c \<in> set t. isSpace c"
  shows "parseFilter ((l # k) @ ''!='' @ v @ t) =
           \<lparr>ftype = Exclude, key = l # k, fvalue = Str v, persistent = None, fenum = None\<rparr>"
proof -
  let ?K = "l # k"
  let ?B = "?K @ ''!''"
  let ?m = "?B @ CHR ''='' # v @ t"
  from assms(1,2) have K: "CHR '':'' \<notin> set ?K" "CHR ''='' \<notin> set ?K" "CHR ''!'' \<notin> set ?K"
    using isAlnum_plain isLetter_isAlnum by auto
  from assms(7) have t: "CHR '':'' \<notin> set t" using isSpace_plain by blast
  have B: "CHR ''='' \<notin> set ?B" using K(2) by simp
  have i1: "indexOf ?m CHR '':'' = - 1"
    using K(1) t assms(6) by (simp add: indexOf_absent)
  have i2: "indexOf ?m CHR ''='' = int (length ?B)"
    by (rule indexOf_first[OF B])
  have sp: "split CHR ''='' ?m = ?B # split CHR ''='' (v @ t)"
    by (rule split_first[OF B])
  have tr: "trim (join CHR ''='' (split CHR ''='' (v @ t))) = v"
    by (simp add: join_split trim_value[OF assms(3,4,7)])
  have v0: "indexOf v CHR ''!'' \<noteq> 0"
    using assms(5) by (simp add: indexOf_zero)
  have k0: "indexOf ?B CHR ''!'' = int (length ?B) - 1"
    using indexOf_first[OF K(3), of "[]"] by simp
  have m: "(l # k) @ ''!='' @ v @ t = ?m" by simp
  show ?thesis
    unfolding m parseFilter_def i1 i2 using sp tr v0 k0 by (simp add: Let_def slice0m1_def)
qed

section \<open>Tokens in the search string\<close>

lemma bang_nonSpace: "\<not> isSpace CHR ''!''"
  by (simp add: isSpace_def)

lemma token_nonSpace:
  assumes "isLetter l" and "\<forall>c \<in> set k. isAlnum c" and "b = [] \<or> b = ''!''"
    and "isSep p" and "\<forall>c \<in> set v. \<not> isSpace c"
  shows "\<forall>c \<in> set ((l # k) @ b @ p # v). \<not> isSpace c"
proof -
  have "\<not> isSpace l" using assms(1) by (rule isLetter_nonSpace)
  moreover have "\<forall>c \<in> set k. \<not> isSpace c" using assms(2) isAlnum_nonSpace by blast
  moreover have "\<forall>c \<in> set b. \<not> isSpace c" using assms(3) bang_nonSpace by auto
  moreover have "\<not> isSpace p" using assms(4) by (rule isSep_nonSpace)
  ultimately show ?thesis using assms(5) by auto
qed

lemma take_prefix: "take (length (a @ r) - length r) (a @ r) = a"
  by simp

lemma filterPattern_Seq:
  "filterPattern me =
     Seq tokenPattern (if me then Alt Eoi (Class isSpace) else Class isSpace)"
  by (simp add: filterPattern_def)

lemma token_matched:
  assumes "isLetter l" and "\<forall>c \<in> set k. isAlnum c" and "b = [] \<or> b = ''!''"
    and "isSep p" and "v \<noteq> []" and "\<forall>c \<in> set v. \<not> isSpace c"
    and "isSpace sp" and "pre = [] \<or> isSpace (last pre)"
  shows "(l # k) @ b @ p # v @ [sp] \<in>
           set (jsmatch (filterPattern me) (pre @ (l # k) @ b @ p # v @ sp # post))"
proof -
  let ?tok = "(l # k) @ b @ p # v"
  let ?T = "?tok @ sp # post"
  have ns: "\<forall>c \<in> set ?tok. \<not> isSpace c"
    by (rule token_nonSpace[OF assms(1,2,3,4,6)])
  have 1: "sp # post \<in> set (rmatch tokenPattern (l # k @ b @ p # v @ sp # post))"
    by (rule tokenPattern_complete[OF assms(1-6)])
  have 2: "post \<in> set (rmatch (if me then Alt Eoi (Class isSpace) else Class isSpace)
      (sp # post))"
    using assms(7) by simp
  have "post \<in> set (rmatch (filterPattern me) (l # k @ b @ p # v @ sp # post))"
    unfolding filterPattern_Seq by (rule Seq_complete[OF 1 2])
  then have "post \<in> set (rmatch (filterPattern me) ?T)" by simp
  from filterPattern_first[OF ns assms(7) this]
  obtain xs where r: "rmatch (filterPattern me) ?T = post # xs" by blast
  have len: "length post < length ?T" by simp
  have T: "?T = (?tok @ [sp]) @ post" by simp
  have tk: "take (length ?T - length post) ?T = ?tok @ [sp]"
    unfolding T by (rule take_prefix)
  from jsmatch_after_prefix[OF r len assms(8)]
  have "take (length ?T - length post) ?T \<in> set (jsmatch (filterPattern me) (pre @ ?T))" .
  then have "?tok @ [sp] \<in> set (jsmatch (filterPattern me) (pre @ ?T))"
    by (simp only: tk)
  then show ?thesis by simp
qed

lemma token_matched_end:
  assumes "isLetter l" and "\<forall>c \<in> set k. isAlnum c" and "b = [] \<or> b = ''!''"
    and "isSep p" and "v \<noteq> []" and "\<forall>c \<in> set v. \<not> isSpace c"
    and "pre = [] \<or> isSpace (last pre)"
  shows "(l # k) @ b @ p # v \<in>
           set (jsmatch (filterPattern True) (pre @ (l # k) @ b @ p # v))"
proof -
  let ?tok = "(l # k) @ b @ p # v"
  have ns: "\<forall>c \<in> set ?tok. \<not> isSpace c"
    by (rule token_nonSpace[OF assms(1,2,3,4,6)])
  have 1: "[] \<in> set (rmatch tokenPattern (l # k @ b @ p # v @ []))"
    by (rule tokenPattern_complete[OF assms(1-6)])
  have 2: "[] \<in> set (rmatch (if True then Alt Eoi (Class isSpace) else Class isSpace) [])"
    by simp
  have "[] \<in> set (rmatch (filterPattern True) (l # k @ b @ p # v @ []))"
    unfolding filterPattern_Seq by (rule Seq_complete[OF 1 2])
  then have "[] \<in> set (rmatch (filterPattern True) ?tok)" by simp
  from filterPattern_first_end[OF ns this]
  obtain xs where r: "rmatch (filterPattern True) ?tok = [] # xs" by blast
  have len: "length ([]::string) < length ?tok" by simp
  from jsmatch_after_prefix[OF r len assms(7)]
  show ?thesis by simp
qed

section \<open>Adding a filter\<close>

lemma map_key_update: "map key (fs[i := (fs ! i)\<lparr>fenum := e\<rparr>]) = map key fs"
proof (cases "i < length fs")
  case True
  then show ?thesis by (simp add: map_update list_update_same_conv)
next
  case False
  then show ?thesis by (simp add: not_less list_update_beyond)
qed

lemma findIndex_found:
  "key f \<in> set (map key (filters st)) \<Longrightarrow> findIndex (\<lambda>g. key g = key f) (filters st) > - 1"
  by (auto simp: findIndex_def)

lemma findIndex_missing:
  assumes "key f \<notin> set (map key (filters st))"
  shows "findIndex (\<lambda>g. key g = key f) (filters st) = - 1"
proof -
  from assms have "\<not> (\<exists>x \<in> set (filters st). key x = key f)"
    by (metis image_eqI set_map)
  then show ?thesis by (simp add: findIndex_def)
qed

lemma addFilter_existing:
  assumes "key f \<in> set (map key (filters st))"
  shows "map key (filters (fst (addFilter props st f))) = map key (filters st)"
  using findIndex_found[OF assms]
  by (simp add: addFilter_def Let_def map_key_update split: option.splits)

lemma addFilter_new:
  assumes "key f \<notin> set (map key (filters st))"
  shows "addFilter props st f =
           (st\<lparr>filters := (if persistent f = Some True then f # filters st else filters st @ [f]),
               focusedToken := - 1\<rparr>, None)"
  using findIndex_missing[OF assms] by (simp add: addFilter_def Let_def)

lemma addFilter_thrown:
  "snd (addFilter props st f) = Some TypeError \<longleftrightarrow>
     key f \<in> set (map key (filters st)) \<and> defaultFilters props = None"
proof (cases "key f \<in> set (map key (filters st))")
  case True
  from findIndex_found[OF True] True show ?thesis
    by (simp add: addFilter_def Let_def split: option.splits)
next
  case False
  from addFilter_new[OF False] False show ?thesis by simp
qed

lemma addFilter_throw_state:
  "snd (addFilter props st f) \<noteq> None \<Longrightarrow> fst (addFilter props st f) = st"
  by (simp add: addFilter_def Let_def split: option.splits if_splits)

lemma addFilter_key_set:
  "set (map key (filters (fst (addFilter props st f)))) =
     insert (key f) (set (map key (filters st)))"
proof (cases "key f \<in> set (map key (filters st))")
  case True
  from addFilter_existing[OF True]
  have "set (map key (filters (fst (addFilter props st f)))) = set (map key (filters st))"
    by (rule arg_cong)
  with True show ?thesis by (simp only: insert_absorb)
next
  case False
  from addFilter_new[OF False] show ?thesis by auto
qed

section \<open>The loop over the matches\<close>

lemma forEach_ok:
  "snd (addFilter props (run_state run) (parseFilter m)) = None \<Longrightarrow>
   forEach_match props run (m # ms) =
     forEach_match props
       \<lparr>run_state = fst (addFilter props (run_state run) (parseFilter m)),
        run_calls = run_calls run @ [parseFilter m], run_thrown = None\<rparr> ms"
  by (simp add: Let_def case_prod_unfold)

lemma forEach_throw:
  "snd (addFilter props (run_state run) (parseFilter m)) \<noteq> None \<Longrightarrow>
   forEach_match props run (m # ms) =
     \<lparr>run_state = fst (addFilter props (run_state run) (parseFilter m)),
      run_calls = run_calls run @ [parseFilter m],
      run_thrown = snd (addFilter props (run_state run) (parseFilter m))\<rparr>"
  by (auto simp add: Let_def case_prod_unfold)

declare forEach_match.simps(2) [simp del]

lemma forEach_calls:
  "run_thrown (forEach_match props run ms) = None \<Longrightarrow>
   run_calls (forEach_match props run ms) = run_calls run @ map parseFilter ms"
proof (induction ms arbitrary: run)
  case Nil
  show ?case by simp
next
  case (Cons m ms)
  show ?case
  proof (cases "snd (addFilter props (run_state run) (parseFilter m)) = None")
    case True
    from Cons.prems Cons.IH show ?thesis
      unfolding forEach_ok[OF True] by simp
  next
    case False
    from Cons.prems show ?thesis
      unfolding forEach_throw[OF False] using False by simp
  qed
qed

lemma forEach_keys:
  "run_thrown (forEach_match props run ms) = None \<Longrightarrow>
   set (map key (filters (run_state (forEach_match props run ms)))) =
     set (map key (map parseFilter ms)) \<union> set (map key (filters (run_state run)))"
proof (induction ms arbitrary: run)
  case Nil
  show ?case by simp
next
  case (Cons m ms)
  show ?case
  proof (cases "snd (addFilter props (run_state run) (parseFilter m)) = None")
    case True
    let ?run' = "\<lparr>run_state = fst (addFilter props (run_state run) (parseFilter m)),
        run_calls = run_calls run @ [parseFilter m], run_thrown = None\<rparr>"
    from Cons.prems have "run_thrown (forEach_match props ?run' ms) = None"
      unfolding forEach_ok[OF True] .
    from Cons.IH[OF this]
    have "set (map key (filters (run_state (forEach_match props ?run' ms)))) =
        set (map key (map parseFilter ms)) \<union>
        insert (key (parseFilter m)) (set (map key (filters (run_state run))))"
      by (simp only: MatchTagsRun.simps addFilter_key_set)
    then show ?thesis unfolding forEach_ok[OF True] by simp
  next
    case False
    from Cons.prems show ?thesis
      unfolding forEach_throw[OF False] using False by simp
  qed
qed

lemma addFilter_not_thrown:
  "defaultFilters props \<noteq> None \<Longrightarrow> snd (addFilter props st f) = None"
  by (auto simp add: addFilter_def Let_def split: option.splits)

lemma forEach_no_throw:
  "defaultFilters props \<noteq> None \<Longrightarrow> run_thrown run = None \<Longrightarrow>
   run_thrown (forEach_match props run ms) = None"
proof (induction ms arbitrary: run)
  case Nil
  then show ?case by simp
next
  case (Cons m ms)
  have ok: "snd (addFilter props (run_state run) (parseFilter m)) = None"
    using Cons.prems(1) by (rule addFilter_not_thrown)
  show ?case unfolding forEach_ok[OF ok]
    by (rule Cons.IH[OF Cons.prems(1)]) simp
qed

lemma forEach_snoc:
  "run_thrown run = None \<Longrightarrow>
   forEach_match props run (ms @ [m]) =
     (if run_thrown (forEach_match props run ms) = None
      then forEach_match props (forEach_match props run ms) [m]
      else forEach_match props run ms)"
proof (induction ms arbitrary: run)
  case Nil
  then show ?case by simp
next
  case (Cons x xs)
  show ?case
  proof (cases "snd (addFilter props (run_state run) (parseFilter x)) = None")
    case True
    let ?run' = "\<lparr>run_state = fst (addFilter props (run_state run) (parseFilter x)),
              run_calls = run_calls run @ [parseFilter x], run_thrown = None\<rparr>"
    have t: "run_thrown ?run' = None" by simp
    show ?thesis unfolding append_Cons forEach_ok[OF True] by (rule Cons.IH[OF t])
  next
    case False
    show ?thesis unfolding append_Cons forEach_throw[OF False] using False by auto
  qed
qed

section \<open>The matches of a search string\<close>

lemma jsmatch_prefix_split:
  "pre = [] \<or> isSpace (last pre) \<Longrightarrow>
   \<exists>ms. jsmatch (filterPattern me) (pre @ T) = ms @ jsmatch (filterPattern me) T"
proof (induction "length pre" arbitrary: pre rule: less_induct)
  case less
  show ?case
  proof (cases pre)
    case Nil
    then show ?thesis by simp
  next
    case (Cons c cs)
    with less.prems have sp: "isSpace (last pre)" by simp
    from Cons obtain pre0 l where pre: "pre = pre0 @ [l]" and l: "isSpace l"
      using sp by (metis append_butlast_last_id list.distinct(1))
    show ?thesis
    proof (cases "rmatch (filterPattern me) (pre @ T)")
      case Nil
      have "cs = [] \<or> isSpace (last cs)"
        using Cons sp by (cases cs) auto
      from less.hyps[OF _ this] Cons
      obtain ms where "jsmatch (filterPattern me) (cs @ T) = ms @ jsmatch (filterPattern me) T"
        by auto
      with Nil Cons show ?thesis by (simp add: jsmatch.simps)
    next
      case (Cons x ys)
      then have "x \<in> set (rmatch (filterPattern me) (pre @ T))" by simp
      from filterPattern_sound[OF this] obtain w where
        w: "\<forall>c \<in> set w. \<not> isSpace c"
          "(\<exists>sp'. isSpace sp' \<and> pre @ T = w @ sp' # x) \<or> (pre @ T = w \<and> x = [])"
        by blast
      from w(1) l pre have "pre @ T \<noteq> w" by auto
      with w(2) obtain sp' where sp': "isSpace sp'" "pre @ T = w @ sp' # x" by blast
      then have "pre0 @ l # T = w @ sp' # x" using pre by simp
      from after_match[OF w(1) sp'(1) l this] obtain pre' where
        p: "x = pre' @ T" "length pre' \<le> length pre0" "pre' = [] \<or> isSpace (last pre')"
        by blast
      from p(2) pre have "length pre' < length pre" by simp
      from less.hyps[OF this p(3)] p(1)
      obtain ms where ms: "jsmatch (filterPattern me) x = ms @ jsmatch (filterPattern me) T"
        by auto
      have "length x < length (pre @ T)" using sp'(2) by simp
      with Cons \<open>pre = c # cs\<close> ms
      have "jsmatch (filterPattern me) (pre @ T) =
          (take (length (pre @ T) - length x) (pre @ T) # ms) @ jsmatch (filterPattern me) T"
        by (simp add: jsmatch.simps)
      then show ?thesis by blast
    qed
  qed
qed

lemma rmatch_filterPattern_Nil: "rmatch (filterPattern me) [] = []"
proof (cases "rmatch (filterPattern me) []")
  case (Cons x ys)
  then have "x \<in> set (rmatch (filterPattern me) [])" by simp
  from filterPattern_sound[OF this] show ?thesis by auto
qed simp

lemma jsmatch_token_end:
  assumes "isLetter l" and "\<forall>c \<in> set k. isAlnum c" and "b = [] \<or> b = ''!''"
    and "isSep p" and "v \<noteq> []" and "\<forall>c \<in> set v. \<not> isSpace c"
  shows "jsmatch (filterPattern True) ((l # k) @ b @ p # v) = [(l # k) @ b @ p # v]"
proof -
  let ?tok = "(l # k) @ b @ p # v"
  have ns: "\<forall>c \<in> set ?tok. \<not> isSpace c"
    by (rule token_nonSpace[OF assms(1,2,3,4,6)])
  have 1: "[] \<in> set (rmatch tokenPattern (l # k @ b @ p # v @ []))"
    by (rule tokenPattern_complete[OF assms(1-6)])
  have 2: "[] \<in> set (rmatch (if True then Alt Eoi (Class isSpace) else Class isSpace) [])"
    by simp
  have "[] \<in> set (rmatch (filterPattern True) (l # k @ b @ p # v @ []))"
    unfolding filterPattern_Seq by (rule Seq_complete[OF 1 2])
  then have "[] \<in> set (rmatch (filterPattern True) ?tok)" by simp
  from filterPattern_first_end[OF ns this]
  obtain xs where r: "rmatch (filterPattern True) (l # k @ b @ p # v) = [] # xs" by auto
  have "jsmatch (filterPattern True) (l # k @ b @ p # v) =
      (l # k @ b @ p # v) # jsmatch (filterPattern True) []"
    using r by (simp add: jsmatch.simps)
  also have "jsmatch (filterPattern True) [] = []"
    by (simp add: jsmatch.simps rmatch_filterPattern_Nil)
  finally show ?thesis by simp
qed

lemma jsmatch_ends_with_token:
  assumes "isLetter l" and "\<forall>c \<in> set k. isAlnum c" and "b = [] \<or> b = ''!''"
    and "isSep p" and "v \<noteq> []" and "\<forall>c \<in> set v. \<not> isSpace c"
    and "pre = [] \<or> isSpace (last pre)"
  shows "\<exists>ms. jsmatch (filterPattern True) (pre @ (l # k) @ b @ p # v) =
           ms @ [(l # k) @ b @ p # v]"
  using jsmatch_prefix_split[OF assms(7), of True "(l # k) @ b @ p # v"]
  unfolding jsmatch_token_end[OF assms(1-6)] .

section \<open>Runs of matchTags\<close>

lemma matchTags_run:
  "matchTags props st s me =
     forEach_match props \<lparr>run_state = st, run_calls = [], run_thrown = None\<rparr>
       (jsmatch (filterPattern me) s)"
  by (simp add: matchTags_def Let_def)

lemma matchTags_calls:
  "run_thrown (matchTags props st s me) = None \<Longrightarrow>
   run_calls (matchTags props st s me) = map parseFilter (jsmatch (filterPattern me) s)"
  unfolding matchTags_run by (drule forEach_calls) simp

lemma matchTags_no_throw:
  "defaultFilters props \<noteq> None \<Longrightarrow> run_thrown (matchTags props st s me) = None"
  unfolding matchTags_run by (rule forEach_no_throw) simp_all

lemma persistent_parseFilter: "persistent (parseFilter m) = None"
  by (simp add: parseFilter_def Let_def case_prod_unfold)

lemma forEach_last_added:
  assumes "run_thrown run = None"
    and "run_thrown (forEach_match props run (ms @ [m])) = None"
    and "key (parseFilter m) \<notin> set (map key (filters (run_state run)))"
    and "key (parseFilter m) \<notin> set (map key (map parseFilter ms))"
  shows "filters (run_state (forEach_match props run (ms @ [m]))) =
           filters (run_state (forEach_match props run ms)) @ [parseFilter m]"
proof -
  let ?r = "forEach_match props run ms"
  have r: "run_thrown ?r = None"
    using assms(2) unfolding forEach_snoc[OF assms(1)] by (auto split: if_splits)
  then have R: "forEach_match props run (ms @ [m]) = forEach_match props ?r [m]"
    unfolding forEach_snoc[OF assms(1)] by simp
  have "key (parseFilter m) \<notin> set (map key (filters (run_state ?r)))"
    unfolding forEach_keys[OF r] using assms(3,4) by simp
  from addFilter_new[OF this, of props]
  have a: "addFilter props (run_state ?r) (parseFilter m) =
      ((run_state ?r)\<lparr>filters := filters (run_state ?r) @ [parseFilter m],
         focusedToken := - 1\<rparr>, None)"
    by (simp add: persistent_parseFilter)
  then have "snd (addFilter props (run_state ?r) (parseFilter m)) = None" by simp
  from forEach_ok[OF this, of "[]"] a show ?thesis unfolding R by simp
qed

section \<open>The keys under addFilter\<close>

text \<open>
  C9. In a list of filters with pairwise distinct keys, \<open>addFilter\<close> with a filter whose
  key is there already leaves the length and the keys of the list as they are; with a new
  key it puts the filter in front when it is persistent, and at the end when it is not.
  The keys are pairwise distinct afterwards. \<open>addFilter\<close> throws exactly when the key is
  there and the prop \<^verbatim>\<open>defaultFilters\<close> was not passed, and then the state is untouched.
\<close>

theorem addFilter_keys:
  assumes "distinct (map key (filters st))"
  shows "(key f \<in> set (map key (filters st)) \<longrightarrow>
            length (filters (fst (addFilter props st f))) = length (filters st) \<and>
            map key (filters (fst (addFilter props st f))) = map key (filters st)) \<and>
         (key f \<notin> set (map key (filters st)) \<longrightarrow>
            filters (fst (addFilter props st f)) =
              (if persistent f = Some True then f # filters st else filters st @ [f]) \<and>
            snd (addFilter props st f) = None) \<and>
         distinct (map key (filters (fst (addFilter props st f)))) \<and>
         (snd (addFilter props st f) = Some TypeError \<longleftrightarrow>
            key f \<in> set (map key (filters st)) \<and> defaultFilters props = None) \<and>
         (snd (addFilter props st f) \<noteq> None \<longrightarrow> fst (addFilter props st f) = st)"
proof -
  have t: "snd (addFilter props st f) = Some TypeError \<longleftrightarrow>
            key f \<in> set (map key (filters st)) \<and> defaultFilters props = None"
    by (rule addFilter_thrown)
  have u: "snd (addFilter props st f) \<noteq> None \<longrightarrow> fst (addFilter props st f) = st"
    using addFilter_throw_state by blast
  show ?thesis
  proof (cases "key f \<in> set (map key (filters st))")
    case True
    have "map key (filters (fst (addFilter props st f))) = map key (filters st)"
      by (rule addFilter_existing[OF True])
    moreover from this
    have "length (filters (fst (addFilter props st f))) = length (filters st)"
      by (metis length_map)
    ultimately show ?thesis using True assms t u by simp
  next
    case False
    have "addFilter props st f =
        (st\<lparr>filters := (if persistent f = Some True then f # filters st else filters st @ [f]),
            focusedToken := - 1\<rparr>, None)"
      by (rule addFilter_new[OF False])
    then show ?thesis using False assms t by auto
  qed
qed

theorem addFilter_keys_witness:
  "distinct (map key (filters ex_state)) \<and>
   map key (filters (fst (addFilter ex_props ex_state (ex_level\<lparr>fvalue := Str ''info''\<rparr>)))) =
     [''app'', ''level'', ''tag''] \<and>
   filters (fst (addFilter ex_props (ex_state\<lparr>filters := [ex_level]\<rparr>) ex_persistent)) =
     [ex_persistent, ex_level] \<and>
   filters (fst (addFilter ex_props (ex_state\<lparr>filters := [ex_level]\<rparr>) ex_tag)) =
     [ex_level, ex_tag] \<and>
   snd (addFilter ex_props (ex_state\<lparr>filters := [ex_level]\<rparr>) ex_tag) = None \<and>
   defaultFilters ex_bare = None \<and>
   snd (addFilter ex_bare ex_state (ex_level\<lparr>fvalue := Str ''info''\<rparr>)) = Some TypeError \<and>
   fst (addFilter ex_bare ex_state (ex_level\<lparr>fvalue := Str ''info''\<rparr>)) = ex_state"
proof -
  have d: "distinct (map key (filters ex_state))"
    by (simp add: ex_state_def ex_persistent_def ex_level_def ex_tag_def)
  have d': "distinct (map key (filters (ex_state\<lparr>filters := [ex_level]\<rparr>)))"
    by simp
  have b: "defaultFilters ex_bare = None" by (simp add: ex_bare_def)
  show ?thesis
    using d b addFilter_keys [OF d, of "ex_level\<lparr>fvalue := Str ''info''\<rparr>" ex_props]
      addFilter_keys [OF d', of ex_persistent ex_props]
      addFilter_keys [OF d', of ex_tag ex_props]
      addFilter_keys [OF d, of "ex_level\<lparr>fvalue := Str ''info''\<rparr>" ex_bare]
    by (simp add: ex_state_def ex_persistent_def ex_level_def ex_tag_def)
qed

section \<open>Parsing the search string\<close>

text \<open>
  C1, amended. Let a search string hold, at its start or right after white space, a token
  \<^verbatim>\<open>key:value\<close> followed by a white space character, where the key is a letter
  followed by letters and digits, and the value is a non-empty run of characters other
  than white space that does not begin with \<^verbatim>\<open>!\<close> and holds no \<^verbatim>\<open>=\<close>. Then a run of
  \<open>matchTags\<close>, with either value of \<open>matchEnd\<close>, in which no call of \<open>addFilter\<close> throws
  calls \<open>addFilter\<close> with the filter of type \<^verbatim>\<open>include\<close> that has this key and this value.
  No call throws when the prop \<^verbatim>\<open>defaultFilters\<close> was passed.
\<close>

theorem key_colon_value_include:
  assumes "isLetter l" and "\<forall>c \<in> set k. isAlnum c"
    and "v \<noteq> []" and "\<forall>c \<in> set v. \<not> isSpace c"
    and "hd v \<noteq> CHR ''!''" and "CHR ''='' \<notin> set v"
    and "isSpace sp" and "pre = [] \<or> isSpace (last pre)"
  shows "(run_thrown (matchTags props st (pre @ (l # k) @ CHR '':'' # v @ sp # post) matchEnd)
            = None \<longrightarrow>
          \<lparr>ftype = Include, key = l # k, fvalue = Str v, persistent = None, fenum = None\<rparr>
            \<in> set (run_calls
                (matchTags props st (pre @ (l # k) @ CHR '':'' # v @ sp # post) matchEnd))) \<and>
         (defaultFilters props \<noteq> None \<longrightarrow>
          run_thrown (matchTags props st (pre @ (l # k) @ CHR '':'' # v @ sp # post) matchEnd)
            = None)"
proof -
  let ?s = "pre @ (l # k) @ CHR '':'' # v @ sp # post"
  let ?f = "\<lparr>ftype = Include, key = l # k, fvalue = Str v, persistent = None, fenum = None\<rparr>"
  have sep: "isSep CHR '':''" by (simp add: isSep_def)
  have b: "([]::string) = [] \<or> ([]::string) = ''!''" by simp
  from token_matched[OF assms(1,2) b sep assms(3,4,7,8), of matchEnd post]
  have m: "(l # k) @ CHR '':'' # v @ [sp] \<in> set (jsmatch (filterPattern matchEnd) ?s)"
    by simp
  have t: "\<forall>c \<in> set [sp]. isSpace c" using assms(7) by simp
  have "parseFilter ((l # k) @ CHR '':'' # v @ [sp]) = ?f"
    by (rule parseFilter_include[OF assms(1,2,3,4,5,6) t])
  with m have "?f \<in> set (map parseFilter (jsmatch (filterPattern matchEnd) ?s))"
    unfolding set_map by (metis imageI)
  then have 1: "run_thrown (matchTags props st ?s matchEnd) = None \<longrightarrow>
      ?f \<in> set (run_calls (matchTags props st ?s matchEnd))"
    by (simp add: matchTags_calls)
  have 2: "defaultFilters props \<noteq> None \<longrightarrow> run_thrown (matchTags props st ?s matchEnd) = None"
    using matchTags_no_throw by blast
  from 1 2 show ?thesis by (intro conjI)
qed

theorem key_colon_value_include_witness:
  "isLetter CHR ''p'' \<and> isAlnum CHR ''i'' \<and> isAlnum CHR ''d'' \<and> isSpace CHR '' '' \<and>
   isSpace (last ''error '') \<and> defaultFilters ex_props = Some [] \<and>
   run_thrown (matchTags ex_props ex_state ''error pid:42 more'' False) = None \<and>
   \<lparr>ftype = Include, key = ''pid'', fvalue = Str ''42'', persistent = None, fenum = None\<rparr>
     \<in> set (run_calls (matchTags ex_props ex_state ''error pid:42 more'' False))"
proof -
  have 1: "isLetter CHR ''p''" by (simp add: isLetter_def)
  have 2: "\<forall>c \<in> set ''id''. isAlnum c" by (simp add: isAlnum_def isLetter_def)
  have 3: "''42'' \<noteq> []" by simp
  have 4: "\<forall>c \<in> set ''42''. \<not> isSpace c" by (simp add: isSpace_def)
  have 5: "hd ''42'' \<noteq> CHR ''!''" by simp
  have 6: "CHR ''='' \<notin> set ''42''" by simp
  have 7: "isSpace CHR '' ''" by (simp add: isSpace_def)
  have 8: "''error '' = [] \<or> isSpace (last ''error '')" by (simp add: isSpace_def)
  have 9: "defaultFilters ex_props = Some []" by (simp add: ex_props_def)
  show ?thesis
    using 1 2 7 8 9
      key_colon_value_include [OF 1 2 3 4 5 6 7 8, of ex_props ex_state "''more''" False]
    by simp
qed

text \<open>
  C1 as stated fails: a value that begins with \<^verbatim>\<open>!\<close> gives a filter of type
  \<^verbatim>\<open>exclude\<close> without the \<^verbatim>\<open>!\<close>, and with a \<^verbatim>\<open>=\<close> in the value the match is
  cut at the \<^verbatim>\<open>=\<close>. Without the prop \<^verbatim>\<open>defaultFilters\<close>, a second token with the key
  of the first makes \<open>addFilter\<close> throw, and the token after it is never passed on.
\<close>

theorem key_colon_value_counterexample:
  "isLetter CHR ''a'' \<and> \<not> isSpace CHR ''!'' \<and> \<not> isSpace CHR ''b'' \<and> isSpace CHR '' '' \<and>
   run_calls (matchTags ex_props ex_empty ''a:!b '' False) =
     [\<lparr>ftype = Exclude, key = ''a'', fvalue = Str ''b'', persistent = None, fenum = None\<rparr>] \<and>
   \<lparr>ftype = Include, key = ''a'', fvalue = Str ''!b'', persistent = None, fenum = None\<rparr>
     \<notin> set (run_calls (matchTags ex_props ex_empty ''a:!b '' False)) \<and>
   run_calls (matchTags ex_props ex_empty ''a:b=c '' False) =
     [\<lparr>ftype = Include, key = ''a:b'', fvalue = Str ''c'', persistent = None, fenum = None\<rparr>] \<and>
   \<lparr>ftype = Include, key = ''a'', fvalue = Str ''b=c'', persistent = None, fenum = None\<rparr>
     \<notin> set (run_calls (matchTags ex_props ex_empty ''a:b=c '' False)) \<and>
   run_calls (matchTags ex_bare ex_empty ''a:1 a:2 b:3 '' False) =
     [\<lparr>ftype = Include, key = ''a'', fvalue = Str ''1'', persistent = None, fenum = None\<rparr>,
      \<lparr>ftype = Include, key = ''a'', fvalue = Str ''2'', persistent = None, fenum = None\<rparr>] \<and>
   run_thrown (matchTags ex_bare ex_empty ''a:1 a:2 b:3 '' False) = Some TypeError \<and>
   \<lparr>ftype = Include, key = ''b'', fvalue = Str ''3'', persistent = None, fenum = None\<rparr>
     \<notin> set (run_calls (matchTags ex_bare ex_empty ''a:1 a:2 b:3 '' False))"
  by code_simp

text \<open>
  C2, amended. Let a search string hold, at its start or right after white space, a token
  \<^verbatim>\<open>key!=value\<close> followed by a white space character, where the key is a letter
  followed by letters and digits, and the value is a non-empty run of characters other
  than white space that does not begin with \<^verbatim>\<open>!\<close> and holds no \<^verbatim>\<open>:\<close>. Then a run of
  \<open>matchTags\<close> in which no call of \<open>addFilter\<close> throws calls \<open>addFilter\<close> with the filter of
  type \<^verbatim>\<open>exclude\<close> that has the key without the \<^verbatim>\<open>!\<close> and this value. No call throws
  when the prop \<^verbatim>\<open>defaultFilters\<close> was passed.
\<close>

theorem key_bang_value_exclude:
  assumes "isLetter l" and "\<forall>c \<in> set k. isAlnum c"
    and "v \<noteq> []" and "\<forall>c \<in> set v. \<not> isSpace c"
    and "hd v \<noteq> CHR ''!''" and "CHR '':'' \<notin> set v"
    and "isSpace sp" and "pre = [] \<or> isSpace (last pre)"
  shows "(run_thrown (matchTags props st (pre @ (l # k) @ ''!='' @ v @ sp # post) matchEnd)
            = None \<longrightarrow>
          \<lparr>ftype = Exclude, key = l # k, fvalue = Str v, persistent = None, fenum = None\<rparr>
            \<in> set (run_calls
                (matchTags props st (pre @ (l # k) @ ''!='' @ v @ sp # post) matchEnd))) \<and>
         (defaultFilters props \<noteq> None \<longrightarrow>
          run_thrown (matchTags props st (pre @ (l # k) @ ''!='' @ v @ sp # post) matchEnd)
            = None)"
proof -
  let ?s = "pre @ (l # k) @ ''!='' @ v @ sp # post"
  let ?f = "\<lparr>ftype = Exclude, key = l # k, fvalue = Str v, persistent = None, fenum = None\<rparr>"
  have sep: "isSep CHR ''=''" by (simp add: isSep_def)
  have b: "''!'' = [] \<or> ''!'' = ''!''" by simp
  from token_matched[OF assms(1,2) b sep assms(3,4,7,8), of matchEnd post]
  have m: "(l # k) @ ''!='' @ v @ [sp] \<in> set (jsmatch (filterPattern matchEnd) ?s)"
    by simp
  have t: "\<forall>c \<in> set [sp]. isSpace c" using assms(7) by simp
  have "parseFilter ((l # k) @ ''!='' @ v @ [sp]) = ?f"
    by (rule parseFilter_exclude[OF assms(1,2,3,4,5,6) t])
  with m have "?f \<in> set (map parseFilter (jsmatch (filterPattern matchEnd) ?s))"
    unfolding set_map by (metis imageI)
  then have 1: "run_thrown (matchTags props st ?s matchEnd) = None \<longrightarrow>
      ?f \<in> set (run_calls (matchTags props st ?s matchEnd))"
    by (simp add: matchTags_calls)
  have 2: "defaultFilters props \<noteq> None \<longrightarrow> run_thrown (matchTags props st ?s matchEnd) = None"
    using matchTags_no_throw by blast
  from 1 2 show ?thesis by (intro conjI)
qed

theorem key_bang_value_exclude_witness:
  "isLetter CHR ''t'' \<and> isAlnum CHR ''a'' \<and> isAlnum CHR ''g'' \<and> isSpace CHR '' '' \<and>
   isSpace (last ''error '') \<and> defaultFilters ex_props = Some [] \<and>
   run_thrown (matchTags ex_props ex_state ''error tag!=net more'' True) = None \<and>
   \<lparr>ftype = Exclude, key = ''tag'', fvalue = Str ''net'', persistent = None, fenum = None\<rparr>
     \<in> set (run_calls (matchTags ex_props ex_state ''error tag!=net more'' True))"
proof -
  have 1: "isLetter CHR ''t''" by (simp add: isLetter_def)
  have 2: "\<forall>c \<in> set ''ag''. isAlnum c" by (simp add: isAlnum_def isLetter_def)
  have 3: "''net'' \<noteq> []" by simp
  have 4: "\<forall>c \<in> set ''net''. \<not> isSpace c" by (simp add: isSpace_def)
  have 5: "hd ''net'' \<noteq> CHR ''!''" by simp
  have 6: "CHR '':'' \<notin> set ''net''" by simp
  have 7: "isSpace CHR '' ''" by (simp add: isSpace_def)
  have 8: "''error '' = [] \<or> isSpace (last ''error '')" by (simp add: isSpace_def)
  have 9: "defaultFilters ex_props = Some []" by (simp add: ex_props_def)
  show ?thesis
    using 1 2 7 8 9
      key_bang_value_exclude [OF 1 2 3 4 5 6 7 8, of ex_props ex_state "''more''" True]
    by simp
qed

text \<open>
  C2 as stated fails: a value that begins with \<^verbatim>\<open>!\<close> loses it, and with a
  \<^verbatim>\<open>:\<close> in the value the match is cut at the \<^verbatim>\<open>:\<close> and the filter is of type
  \<^verbatim>\<open>include\<close>. Without the prop \<^verbatim>\<open>defaultFilters\<close>, a token whose key is in the list
  already makes \<open>addFilter\<close> throw, and the token after it is never passed on.
\<close>

theorem key_bang_value_counterexample:
  "isLetter CHR ''a'' \<and> \<not> isSpace CHR ''!'' \<and> \<not> isSpace CHR ''b'' \<and> isSpace CHR '' '' \<and>
   run_calls (matchTags ex_props ex_empty ''a!=!b '' False) =
     [\<lparr>ftype = Exclude, key = ''a'', fvalue = Str ''b'', persistent = None, fenum = None\<rparr>] \<and>
   \<lparr>ftype = Exclude, key = ''a'', fvalue = Str ''!b'', persistent = None, fenum = None\<rparr>
     \<notin> set (run_calls (matchTags ex_props ex_empty ''a!=!b '' False)) \<and>
   run_calls (matchTags ex_props ex_empty ''a!=b:c '' False) =
     [\<lparr>ftype = Include, key = ''a!=b'', fvalue = Str ''c'', persistent = None, fenum = None\<rparr>] \<and>
   \<lparr>ftype = Exclude, key = ''a'', fvalue = Str ''b:c'', persistent = None, fenum = None\<rparr>
     \<notin> set (run_calls (matchTags ex_props ex_empty ''a!=b:c '' False)) \<and>
   run_calls (matchTags ex_bare ex_state ''level:1 tag!=net '' False) =
     [\<lparr>ftype = Include, key = ''level'', fvalue = Str ''1'', persistent = None,
       fenum = None\<rparr>] \<and>
   run_thrown (matchTags ex_bare ex_state ''level:1 tag!=net '' False) = Some TypeError \<and>
   \<lparr>ftype = Exclude, key = ''tag'', fvalue = Str ''net'', persistent = None, fenum = None\<rparr>
     \<notin> set (run_calls (matchTags ex_bare ex_state ''level:1 tag!=net '' False))"
  by code_simp

text \<open>
  C3, amended. With the search bar focused and its input attached, a \<^verbatim>\<open>keydown\<close> of Enter
  calls the debounced \<open>matchTags\<close> with the text of the input and \<open>matchEnd\<close> true, and the
  timer of \<^verbatim>\<open>debounce\<close> runs \<open>matchTags\<close> on these arguments. With \<open>matchEnd\<close> true, a
  token \<^verbatim>\<open>key:value\<close> that ends the input, standing at its start or right after white
  space, is the last match. In a run in which no call of \<open>addFilter\<close> throws (none does
  when the prop \<^verbatim>\<open>defaultFilters\<close> was passed), the filter built from the token is the
  last one passed to \<open>addFilter\<close>, and it is added at the end of the list of filters when
  neither a filter of the list nor an earlier call of the run has its key. When the value
  does not begin with \<^verbatim>\<open>!\<close> and holds no \<^verbatim>\<open>=\<close>, that filter is of type \<^verbatim>\<open>include\<close>
  with this key and this value. While typing, \<open>onChangeSearchTerm\<close> calls \<open>matchTags\<close> with
  \<open>matchEnd\<close> false; then every match ends with a white space character, and the token
  that ends the input is no match.
\<close>

theorem enter_commits_partial:
  assumes "isLetter l" and "\<forall>c \<in> set k. isAlnum c"
    and "v \<noteq> []" and "\<forall>c \<in> set v. \<not> isSpace c"
    and "pre = [] \<or> isSpace (last pre)"
  shows "(e_key e = ''Enter'' \<and> hasFocus_method (state c) \<and> inputRef c = Some el \<longrightarrow>
            onKeyDown platform c e =
              Inr (c\<lparr>matchTagsPending := Some (input_value el, True)\<rparr>, e)) \<and>
         matchTags_timer props (c\<lparr>matchTagsPending := Some (s, matchEnd)\<rparr>) =
           (c\<lparr>state := run_state (matchTags props (state c) s matchEnd),
              matchTagsPending := None\<rparr>,
            run_thrown (matchTags props (state c) s matchEnd)) \<and>
         jsmatch (filterPattern True) (pre @ (l # k) @ CHR '':'' # v) \<noteq> [] \<and>
         last (jsmatch (filterPattern True) (pre @ (l # k) @ CHR '':'' # v)) =
           (l # k) @ CHR '':'' # v \<and>
         (defaultFilters props \<noteq> None \<longrightarrow>
            run_thrown (matchTags props st (pre @ (l # k) @ CHR '':'' # v) True) = None) \<and>
         (run_thrown (matchTags props st (pre @ (l # k) @ CHR '':'' # v) True) = None \<longrightarrow>
            run_calls (matchTags props st (pre @ (l # k) @ CHR '':'' # v) True) \<noteq> [] \<and>
            last (run_calls (matchTags props st (pre @ (l # k) @ CHR '':'' # v) True)) =
              parseFilter ((l # k) @ CHR '':'' # v)) \<and>
         (run_thrown (matchTags props st (pre @ (l # k) @ CHR '':'' # v) True) = None \<and>
          key (parseFilter ((l # k) @ CHR '':'' # v)) \<notin> set (map key (filters st)) \<and>
          key (parseFilter ((l # k) @ CHR '':'' # v)) \<notin>
            set (map key
              (butlast (run_calls (matchTags props st (pre @ (l # k) @ CHR '':'' # v) True))))
          \<longrightarrow>
            filters (run_state (matchTags props st (pre @ (l # k) @ CHR '':'' # v) True)) \<noteq> [] \<and>
            last (filters (run_state (matchTags props st (pre @ (l # k) @ CHR '':'' # v) True))) =
              parseFilter ((l # k) @ CHR '':'' # v)) \<and>
         (hd v \<noteq> CHR ''!'' \<and> CHR ''='' \<notin> set v \<longrightarrow>
            parseFilter ((l # k) @ CHR '':'' # v) =
              \<lparr>ftype = Include, key = l # k, fvalue = Str v, persistent = None,
               fenum = None\<rparr>) \<and>
         (l # k) @ CHR '':'' # v \<notin>
           set (jsmatch (filterPattern False) (pre @ (l # k) @ CHR '':'' # v)) \<and>
         (\<forall>m \<in> set (jsmatch (filterPattern False) s). m \<noteq> [] \<and> isSpace (last m)) \<and>
         onChangeSearchTerm c s =
           c\<lparr>state := (state c)\<lparr>searchTerm := s\<rparr>, matchTagsPending := Some (s, False)\<rparr>"
proof -
  let ?tok = "(l # k) @ CHR '':'' # v"
  let ?R = "matchTags props st (pre @ ?tok) True"
  let ?run0 = "\<lparr>run_state = st, run_calls = [], run_thrown = None\<rparr>"
  have sep: "isSep CHR '':''" by (simp add: isSep_def)
  have b: "([]::string) = [] \<or> ([]::string) = ''!''" by simp
  have 1: "e_key e = ''Enter'' \<and> hasFocus_method (state c) \<and> inputRef c = Some el \<longrightarrow>
            onKeyDown platform c e =
              Inr (c\<lparr>matchTagsPending := Some (input_value el, True)\<rparr>, e)"
    by (simp add: onKeyDown_def Let_def matchTags_debounced_def)
  have 2: "matchTags_timer props (c\<lparr>matchTagsPending := Some (s, matchEnd)\<rparr>) =
           (c\<lparr>state := run_state (matchTags props (state c) s matchEnd),
              matchTagsPending := None\<rparr>,
            run_thrown (matchTags props (state c) s matchEnd))"
    by (simp add: matchTags_timer_def Let_def)
  from jsmatch_ends_with_token[OF assms(1,2) b sep assms(3,4,5)]
  obtain ms where ms: "jsmatch (filterPattern True) (pre @ ?tok) = ms @ [?tok]" by auto
  then have 3: "jsmatch (filterPattern True) (pre @ ?tok) \<noteq> []"
    and 4: "last (jsmatch (filterPattern True) (pre @ ?tok)) = ?tok"
    by simp_all
  have 5: "defaultFilters props \<noteq> None \<longrightarrow> run_thrown ?R = None"
    using matchTags_no_throw by blast
  have R: "?R = forEach_match props ?run0 (ms @ [?tok])"
    unfolding matchTags_run ms ..
  have calls: "run_thrown ?R = None \<Longrightarrow>
      run_calls ?R = map parseFilter ms @ [parseFilter ?tok]"
    using matchTags_calls[of props st "pre @ ?tok" True] ms by simp
  have 6: "run_thrown ?R = None \<longrightarrow>
      run_calls ?R \<noteq> [] \<and> last (run_calls ?R) = parseFilter ?tok"
    using calls by simp
  have 7: "run_thrown ?R = None \<and>
      key (parseFilter ?tok) \<notin> set (map key (filters st)) \<and>
      key (parseFilter ?tok) \<notin> set (map key (butlast (run_calls ?R))) \<longrightarrow>
        filters (run_state ?R) \<noteq> [] \<and> last (filters (run_state ?R)) = parseFilter ?tok"
  proof (intro impI, elim conjE)
    assume t: "run_thrown ?R = None"
      and n1: "key (parseFilter ?tok) \<notin> set (map key (filters st))"
      and n2: "key (parseFilter ?tok) \<notin> set (map key (butlast (run_calls ?R)))"
    have "butlast (run_calls ?R) = map parseFilter ms"
      unfolding calls[OF t] by simp
    with n2 have n2': "key (parseFilter ?tok) \<notin> set (map key (map parseFilter ms))"
      by (simp add: image_image)
    have t0: "run_thrown ?run0 = None" by simp
    have t': "run_thrown (forEach_match props ?run0 (ms @ [?tok])) = None"
      using t unfolding R .
    have n1': "key (parseFilter ?tok) \<notin> set (map key (filters (run_state ?run0)))"
      using n1 by simp
    from forEach_last_added[OF t0 t' n1' n2']
    have "filters (run_state ?R) =
        filters (run_state (forEach_match props ?run0 ms)) @ [parseFilter ?tok]"
      unfolding R .
    then show "filters (run_state ?R) \<noteq> [] \<and> last (filters (run_state ?R)) = parseFilter ?tok"
      by simp
  qed
  have 8: "hd v \<noteq> CHR ''!'' \<and> CHR ''='' \<notin> set v \<longrightarrow>
            parseFilter ?tok =
              \<lparr>ftype = Include, key = l # k, fvalue = Str v, persistent = None,
               fenum = None\<rparr>"
    using parseFilter_include[OF assms(1,2,3,4), of "[]"] by simp
  have ns: "\<not> isSpace (last ?tok)"
    using assms(3,4) by simp
  have 10: "\<forall>m \<in> set (jsmatch (filterPattern False) s). m \<noteq> [] \<and> isSpace (last m)"
    using jsmatch_False_ends_space by blast
  have 9: "?tok \<notin> set (jsmatch (filterPattern False) (pre @ ?tok))"
    using jsmatch_False_ends_space[of ?tok "pre @ ?tok"] ns by blast
  have 11: "onChangeSearchTerm c s =
           c\<lparr>state := (state c)\<lparr>searchTerm := s\<rparr>, matchTagsPending := Some (s, False)\<rparr>"
    by (simp add: onChangeSearchTerm_def matchTags_debounced_def)
  from 1 2 3 4 5 6 7 8 9 10 11 show ?thesis by (intro conjI)
qed

theorem enter_commits_partial_witness:
  "isLetter CHR ''p'' \<and> isAlnum CHR ''i'' \<and> isAlnum CHR ''d'' \<and> isSpace (last ''error '') \<and>
   e_key (keydown ''Enter'' False False) = ''Enter'' \<and> hasFocus_method (state ex_component) \<and>
   inputRef ex_component = Some ex_input \<and>
   onKeyDown ''linux'' ex_component (keydown ''Enter'' False False) =
     Inr (ex_component\<lparr>matchTagsPending := Some (''pid:42'', True)\<rparr>,
          keydown ''Enter'' False False) \<and>
   last (jsmatch (filterPattern True) ''error pid:42'') = ''pid:42'' \<and>
   defaultFilters ex_props = Some [] \<and>
   run_thrown (matchTags ex_props ex_state ''error pid:42'' True) = None \<and>
   last (run_calls (matchTags ex_props ex_state ''error pid:42'' True)) =
     \<lparr>ftype = Include, key = ''pid'', fvalue = Str ''42'', persistent = None, fenum = None\<rparr> \<and>
   last (filters (run_state (matchTags ex_props ex_state ''error pid:42'' True))) =
     \<lparr>ftype = Include, key = ''pid'', fvalue = Str ''42'', persistent = None, fenum = None\<rparr> \<and>
   ''pid:42'' \<notin> set (jsmatch (filterPattern False) ''error pid:42'') \<and>
   ''pid:42 '' \<in> set (jsmatch (filterPattern False) ''pid:42 '') \<and>
   isSpace (last ''pid:42 '')"
proof -
  have 1: "isLetter CHR ''p''" by (simp add: isLetter_def)
  have 2: "\<forall>c \<in> set ''id''. isAlnum c" by (simp add: isAlnum_def isLetter_def)
  have 3: "''42'' \<noteq> []" by simp
  have 4: "\<forall>c \<in> set ''42''. \<not> isSpace c" by (simp add: isSpace_def)
  have 5: "''error '' = [] \<or> isSpace (last ''error '')" by (simp add: isSpace_def)
  have 6: "e_key (keydown ''Enter'' False False) = ''Enter''" by (simp add: keydown_def)
  have 7: "hasFocus_method (state ex_component)"
    by (simp add: hasFocus_method_def ex_component_def ex_state_def)
  have 8: "inputRef ex_component = Some ex_input" by (simp add: ex_component_def)
  have 9: "hd ''42'' \<noteq> CHR ''!'' \<and> CHR ''='' \<notin> set ''42''" by simp
  have 10: "''pid:42 '' \<in> set (jsmatch (filterPattern False) ''pid:42 '')" by code_simp
  have 11: "defaultFilters ex_props = Some []" by (simp add: ex_props_def)
  have 12: "''pid'' \<notin> set (map key (filters ex_state))"
    by (simp add: ex_state_def ex_persistent_def ex_level_def ex_tag_def)
  have 13: "butlast (run_calls (matchTags ex_props ex_state ''error pid:42'' True)) = []"
    by code_simp
  show ?thesis
    using 1 2 5 6 7 8 9 10 11 12 13
      enter_commits_partial [OF 1 2 3 4 5, where e = "keydown ''Enter'' False False"
        and c = ex_component and el = ex_input and platform = "''linux''" and props = ex_props
        and st = ex_state and s = "''pid:42 ''" and matchEnd = True]
    by (auto simp add: ex_input_def)
qed

text \<open>
  C3 as stated fails: a token that ends the input is passed to \<open>addFilter\<close>, but is not
  added when a filter with its key is there already, here from an earlier token of the
  same input. Without the prop \<^verbatim>\<open>defaultFilters\<close>, a token whose key is in the list makes
  \<open>addFilter\<close> throw, and the token that ends the input is neither passed on nor added.
\<close>

theorem enter_commits_partial_counterexample:
  "isLetter CHR ''a'' \<and> \<not> isSpace CHR ''2'' \<and> isSpace CHR '' '' \<and>
   last (jsmatch (filterPattern True) ''a:1 a:2'') = ''a:2'' \<and>
   run_calls (matchTags ex_props ex_empty ''a:1 a:2'' True) =
     [\<lparr>ftype = Include, key = ''a'', fvalue = Str ''1'', persistent = None, fenum = None\<rparr>,
      \<lparr>ftype = Include, key = ''a'', fvalue = Str ''2'', persistent = None, fenum = None\<rparr>] \<and>
   run_thrown (matchTags ex_props ex_empty ''a:1 a:2'' True) = None \<and>
   filters (run_state (matchTags ex_props ex_empty ''a:1 a:2'' True)) =
     [\<lparr>ftype = Include, key = ''a'', fvalue = Str ''1'', persistent = None, fenum = None\<rparr>] \<and>
   \<lparr>ftype = Include, key = ''a'', fvalue = Str ''2'', persistent = None, fenum = None\<rparr>
     \<notin> set (filters (run_state (matchTags ex_props ex_empty ''a:1 a:2'' True))) \<and>
   run_calls (matchTags ex_bare ex_state ''level:1 pid:42'' True) =
     [\<lparr>ftype = Include, key = ''level'', fvalue = Str ''1'', persistent = None,
       fenum = None\<rparr>] \<and>
   run_thrown (matchTags ex_bare ex_state ''level:1 pid:42'' True) = Some TypeError \<and>
   filters (run_state (matchTags ex_bare ex_state ''level:1 pid:42'' True)) =
     [ex_persistent, ex_level, ex_tag]"
  by code_simp

section \<open>Clearing the search\<close>

text \<open>
  C10. \<open>clear\<close> sets the search term to the empty string and keeps exactly the filters
  whose \<open>persistent\<close> is \<open>true\<close>, in their order; every other filter is removed.
\<close>

theorem clear_keeps_persistent:
  "searchTerm (clear st) = [] \<and>
   filters (clear st) = filter (\<lambda>f. persistent f = Some True) (filters st)"
  by (auto simp: clear_def intro: filter_cong)

section \<open>The keyboard\<close>

text \<open>
  C5. With the search input attached, a \<^verbatim>\<open>keydown\<close> of Escape takes the focus from the
  input and sets the search term to the empty string; nothing else of the component
  changes.
\<close>

theorem escape_clears:
  assumes "e_key e = ''Escape''" and "inputRef c = Some el"
  shows "onKeyDown platform c e =
           Inr (c\<lparr>inputRef := Some (blur el), state := (state c)\<lparr>searchTerm := []\<rparr>\<rparr>, e) \<and>
         focused (blur el) = False"
  using assms by (simp add: onKeyDown_def blur_def Let_def)

theorem escape_clears_witness:
  "e_key (keydown ''Escape'' False False) = ''Escape'' \<and>
   inputRef (ex_component\<lparr>state := ex_state\<lparr>searchTerm := ''abc''\<rparr>\<rparr>) = Some ex_input \<and>
   onKeyDown ''linux'' (ex_component\<lparr>state := ex_state\<lparr>searchTerm := ''abc''\<rparr>\<rparr>)
       (keydown ''Escape'' False False) =
     Inr (ex_component\<lparr>inputRef := Some (ex_input\<lparr>focused := False\<rparr>)\<rparr>,
          keydown ''Escape'' False False)"
proof -
  have k: "e_key (keydown ''Escape'' False False) = ''Escape''"
    by (simp add: keydown_def)
  have r: "inputRef (ex_component\<lparr>state := ex_state\<lparr>searchTerm := ''abc''\<rparr>\<rparr>) = Some ex_input"
    by (simp add: ex_component_def)
  show ?thesis
    using k r escape_clears [OF k r, of "''linux''"]
    by (simp add: ex_component_def ex_state_def blur_def)
qed

text \<open>
  C7. With the search input attached, a \<^verbatim>\<open>keydown\<close> of \<^verbatim>\<open>f\<close> with Cmd held on
  \<^verbatim>\<open>darwin\<close>, or with Ctrl held on another platform, gives the focus to the input and
  prevents the default action of the event. With neither modifier held the handler does
  nothing.
\<close>

theorem ctrl_f_focuses:
  assumes "e_key e = ''f''" and "inputRef c = Some el"
  shows "((platform = ''darwin'' \<and> metaKey e) \<or> (platform \<noteq> ''darwin'' \<and> ctrlKey e) \<longrightarrow>
            onKeyDown platform c e =
              Inr (c\<lparr>inputRef := Some (focus el)\<rparr>, e\<lparr>defaultPrevented := True\<rparr>) \<and>
            focused (focus el) = True) \<and>
         (\<not> metaKey e \<and> \<not> ctrlKey e \<longrightarrow> onKeyDown platform c e = Inr (c, e))"
  using assms by (auto simp add: onKeyDown_def focus_def Let_def ctrlOrCmd_def)

theorem ctrl_f_focuses_witness:
  "e_key (keydown ''f'' True False) = ''f'' \<and> e_key (keydown ''f'' False True) = ''f'' \<and>
   e_key (keydown ''f'' False False) = ''f'' \<and>
   inputRef (ex_component\<lparr>inputRef := Some (ex_input\<lparr>focused := False\<rparr>)\<rparr>) =
     Some (ex_input\<lparr>focused := False\<rparr>) \<and>
   onKeyDown ''darwin'' (ex_component\<lparr>inputRef := Some (ex_input\<lparr>focused := False\<rparr>)\<rparr>)
       (keydown ''f'' True False) =
     Inr (ex_component, (keydown ''f'' True False)\<lparr>defaultPrevented := True\<rparr>) \<and>
   onKeyDown ''linux'' (ex_component\<lparr>inputRef := Some (ex_input\<lparr>focused := False\<rparr>)\<rparr>)
       (keydown ''f'' False True) =
     Inr (ex_component, (keydown ''f'' False True)\<lparr>defaultPrevented := True\<rparr>) \<and>
   onKeyDown ''linux'' (ex_component\<lparr>inputRef := Some (ex_input\<lparr>focused := False\<rparr>)\<rparr>)
       (keydown ''f'' False False) =
     Inr (ex_component\<lparr>inputRef := Some (ex_input\<lparr>focused := False\<rparr>)\<rparr>,
          keydown ''f'' False False)"
proof -
  let ?c = "ex_component\<lparr>inputRef := Some (ex_input\<lparr>focused := False\<rparr>)\<rparr>"
  have k1: "e_key (keydown ''f'' True False) = ''f''"
    and k2: "e_key (keydown ''f'' False True) = ''f''"
    and k3: "e_key (keydown ''f'' False False) = ''f''"
    by (simp_all add: keydown_def)
  have r: "inputRef ?c = Some (ex_input\<lparr>focused := False\<rparr>)"
    by simp
  show ?thesis
    using k1 k2 k3 r ctrl_f_focuses [OF k1 r, of "''darwin''"]
      ctrl_f_focuses [OF k2 r, of "''linux''"] ctrl_f_focuses [OF k3 r, of "''linux''"]
    by (simp add: keydown_def focus_def ex_component_def ex_input_def)
qed

text \<open>
  C6. With the search bar focused and its input attached, Backspace with an empty search
  term and no token focused takes the focus from the input and moves it to the last
  token, when there is a last token and it is not persistent. Backspace or Delete with
  the token at an index focused removes the filter at that index, leaves the others in
  their order, and sets the focused token to -1.
\<close>

theorem backspace_delete_tokens:
  "(e_key e = ''Backspace'' \<and> hasFocus_method (state c) \<and> inputRef c = Some el \<and>
    focusedToken (state c) = - 1 \<and> searchTerm (state c) = [] \<and>
    filters (state c) \<noteq> [] \<and> persistent (last (filters (state c))) \<noteq> Some True
    \<longrightarrow> onKeyDown platform c e =
          Inr (c\<lparr>inputRef := Some (blur el),
                 state := (state c)\<lparr>focusedToken := int (length (filters (state c))) - 1\<rparr>\<rparr>, e))
   \<and>
   ((e_key e = ''Backspace'' \<or> e_key e = ''Delete'') \<and>
    0 \<le> focusedToken (state c) \<and> focusedToken (state c) < int (length (filters (state c)))
    \<longrightarrow> (\<exists>c'. onKeyDown platform c e = Inr (c', e) \<and>
              filters (state c') =
                take (nat (focusedToken (state c))) (filters (state c)) @
                drop (Suc (nat (focusedToken (state c)))) (filters (state c)) \<and>
              focusedToken (state c') = - 1))"
  by (auto simp add: onKeyDown_def Let_def hasFocus_method_def removeFilter_def
      filterByIndex_remove split: option.splits)

theorem backspace_delete_tokens_witness:
  "e_key (keydown ''Backspace'' False False) = ''Backspace'' \<and>
   e_key (keydown ''Delete'' False False) = ''Delete'' \<and>
   hasFocus_method (state ex_component) \<and> inputRef ex_component = Some ex_input \<and>
   focusedToken (state ex_component) = - 1 \<and> searchTerm (state ex_component) = [] \<and>
   last (filters (state ex_component)) = ex_tag \<and> persistent ex_tag = Some False \<and>
   onKeyDown ''linux'' ex_component (keydown ''Backspace'' False False) =
     Inr (ex_component\<lparr>inputRef := Some (ex_input\<lparr>focused := False\<rparr>),
            state := ex_state\<lparr>focusedToken := 2\<rparr>\<rparr>,
          keydown ''Backspace'' False False) \<and>
   filters (state (fst (projr (onKeyDown ''linux''
       (ex_component\<lparr>state := ex_state\<lparr>focusedToken := 1\<rparr>\<rparr>)
       (keydown ''Delete'' False False))))) = [ex_persistent, ex_tag] \<and>
   focusedToken (state (fst (projr (onKeyDown ''linux''
       (ex_component\<lparr>state := ex_state\<lparr>focusedToken := 1\<rparr>\<rparr>)
       (keydown ''Delete'' False False))))) = - 1 \<and>
   filters (state (fst (projr (onKeyDown ''linux''
       (ex_component\<lparr>state := ex_state\<lparr>focusedToken := 2\<rparr>\<rparr>)
       (keydown ''Backspace'' False False))))) = [ex_persistent, ex_level]"
proof -
  have k: "e_key (keydown ''Backspace'' False False) = ''Backspace''"
    "e_key (keydown ''Delete'' False False) = ''Delete''"
    by (simp_all add: keydown_def)
  have c: "hasFocus_method (state ex_component)" "inputRef ex_component = Some ex_input"
    "focusedToken (state ex_component) = - 1" "searchTerm (state ex_component) = []"
    "filters (state ex_component) \<noteq> []" "last (filters (state ex_component)) = ex_tag"
    "persistent ex_tag = Some False" "state ex_component = ex_state"
    "filters ex_state = [ex_persistent, ex_level, ex_tag]"
    by (simp_all add: hasFocus_method_def ex_component_def ex_state_def ex_tag_def)
  show ?thesis
    using k c
      backspace_delete_tokens [where e = "keydown ''Backspace'' False False"
        and c = ex_component and el = ex_input and platform = "''linux''"]
      backspace_delete_tokens [where e = "keydown ''Delete'' False False"
        and c = "ex_component\<lparr>state := ex_state\<lparr>focusedToken := 1\<rparr>\<rparr>"
        and platform = "''linux''"]
      backspace_delete_tokens [where e = "keydown ''Backspace'' False False"
        and c = "ex_component\<lparr>state := ex_state\<lparr>focusedToken := 2\<rparr>\<rparr>"
        and platform = "''linux''"]
    by (auto simp add: blur_def)
qed

text \<open>
  C8. The handler reads \<open>persistent\<close> of the last filter when Backspace is pressed with
  the search bar focused, no token focused and an empty search term. With an empty list
  of filters there is no last filter, and the read throws.
\<close>

theorem backspace_empty_filters_throws:
  "onKeyDown ''linux''
     \<lparr>state = \<lparr>filters = [], focusedToken = - 1, searchTerm = [], hasFocus = True\<rparr>,
      inputRef = Some \<lparr>input_value = [], focused = True\<rparr>,
      matchTagsPending = None\<rparr>
     \<lparr>e_key = ''Backspace'', metaKey = False, ctrlKey = False, defaultPrevented = False\<rparr>
   = Inl TypeError"
  by (simp add: onKeyDown_def Let_def hasFocus_method_def)

section \<open>Persisting the search\<close>

text \<open>
  C4. The key of the storage is \<^verbatim>\<open>SEARCHABLE_STORAGE_KEY_\<close> followed by the prop
  \<open>tableKey\<close> when that is a non-empty string, and otherwise, when there are columns, by
  \<^verbatim>\<open>TABLE_COLUMNS_\<close> and the upper-cased keys of the columns joined with \<^verbatim>\<open>_\<close>. When
  one of the two is there and the search term or the array of filters has changed,
  \<open>componentDidUpdate\<close> stores the search term and the filters under that key. When
  neither is there, it leaves the storage as it is, whether it throws or not.
\<close>

theorem persist_key_by_table:
  "(tableKey props = Some k \<and> k \<noteq> [] \<longrightarrow>
      getPersistKey toUpperCase props = ''SEARCHABLE_STORAGE_KEY_'' @ k) \<and>
   (\<not> truthy (tableKey props) \<and> columns props = Some ks \<longrightarrow>
      getPersistKey toUpperCase props =
        ''SEARCHABLE_STORAGE_KEY_'' @ ''TABLE_COLUMNS_'' @ toUpperCase (join CHR ''_'' ks)) \<and>
   ((truthy (tableKey props) \<or> columns props \<noteq> None) \<and>
    (searchTerm prevState \<noteq> searchTerm st \<or> \<not> sameFilters) \<longrightarrow>
      componentDidUpdate toUpperCase props sameDefaultFilters prevState sameFilters st storage =
        (st,
         storage(getPersistKey toUpperCase props \<mapsto>
           \<lparr>saved_searchTerm = searchTerm st, saved_filters = filters st\<rparr>),
         if onFilterChange props then Some (filters st) else None,
         None)) \<and>
   (\<not> truthy (tableKey props) \<and> columns props = None \<longrightarrow>
      fst (snd (componentDidUpdate toUpperCase props sameDefaultFilters prevState sameFilters
        st storage)) = storage)"
proof -
  have t: "truthy (tableKey props) \<Longrightarrow> truthy (getTableKey toUpperCase props)"
    by (simp add: getTableKey_def)
  have c: "\<not> truthy (tableKey props) \<Longrightarrow> columns props = Some ks \<Longrightarrow>
      getTableKey toUpperCase props =
        Some (''TABLE_COLUMNS_'' @ toUpperCase (join CHR ''_'' ks))" for ks
    by (simp add: getTableKey_def)
  have n: "\<not> truthy (tableKey props) \<Longrightarrow> columns props = None \<Longrightarrow>
      getTableKey toUpperCase props = None"
    by (simp add: getTableKey_def)
  have 1: "tableKey props = Some k \<and> k \<noteq> [] \<longrightarrow>
      getPersistKey toUpperCase props = ''SEARCHABLE_STORAGE_KEY_'' @ k"
    by (simp add: getPersistKey_def getTableKey_def truthy_def)
  have 2: "\<not> truthy (tableKey props) \<and> columns props = Some ks \<longrightarrow>
      getPersistKey toUpperCase props =
        ''SEARCHABLE_STORAGE_KEY_'' @ ''TABLE_COLUMNS_'' @ toUpperCase (join CHR ''_'' ks)"
    using c[of ks] by (simp add: getPersistKey_def truthy_def)
  have av: "truthy (tableKey props) \<or> columns props \<noteq> None \<Longrightarrow>
      truthy (getTableKey toUpperCase props)"
    using t c by (cases "truthy (tableKey props)") (auto simp: truthy_def)
  have 3: "(truthy (tableKey props) \<or> columns props \<noteq> None) \<and>
    (searchTerm prevState \<noteq> searchTerm st \<or> \<not> sameFilters) \<longrightarrow>
      componentDidUpdate toUpperCase props sameDefaultFilters prevState sameFilters st storage =
        (st,
         storage(getPersistKey toUpperCase props \<mapsto>
           \<lparr>saved_searchTerm = searchTerm st, saved_filters = filters st\<rparr>),
         if onFilterChange props then Some (filters st) else None,
         None)"
    using av by (simp add: componentDidUpdate_def)
  have 4: "\<not> truthy (tableKey props) \<and> columns props = None \<longrightarrow>
      fst (snd (componentDidUpdate toUpperCase props sameDefaultFilters prevState sameFilters
        st storage)) = storage"
    using n by (simp add: componentDidUpdate_def truthy_def split: option.splits)
  from 1 2 3 4 show ?thesis by (intro conjI)
qed

theorem persist_key_by_table_witness:
  "tableKey (ex_props\<lparr>tableKey := Some ''logs''\<rparr>) = Some ''logs'' \<and>
   getPersistKey asciiUpper (ex_props\<lparr>tableKey := Some ''logs''\<rparr>) =
     ''SEARCHABLE_STORAGE_KEY_logs'' \<and>
   columns ex_props = Some [''time'', ''msg''] \<and>
   getPersistKey asciiUpper ex_props = ''SEARCHABLE_STORAGE_KEY_TABLE_COLUMNS_TIME_MSG'' \<and>
   componentDidUpdate asciiUpper ex_props True ex_state True (ex_state\<lparr>searchTerm := ''x''\<rparr>)
       Map.empty =
     (ex_state\<lparr>searchTerm := ''x''\<rparr>,
      [''SEARCHABLE_STORAGE_KEY_TABLE_COLUMNS_TIME_MSG'' \<mapsto>
         \<lparr>saved_searchTerm = ''x'', saved_filters = filters ex_state\<rparr>],
      Some (filters ex_state), None) \<and>
   columns (ex_props\<lparr>columns := None\<rparr>) = None \<and>
   fst (snd (componentDidUpdate asciiUpper (ex_props\<lparr>columns := None\<rparr>) True ex_state True
     (ex_state\<lparr>searchTerm := ''x''\<rparr>) Map.empty)) = Map.empty"
proof -
  have u: "asciiUpper (join CHR ''_'' [''time'', ''msg'']) = ''TIME_MSG''"
    by code_simp
  have 1: "tableKey (ex_props\<lparr>tableKey := Some ''logs''\<rparr>) = Some ''logs''"
    by simp
  have 2: "\<not> truthy (tableKey ex_props)" "columns ex_props = Some [''time'', ''msg'']"
    "onFilterChange ex_props"
    by (simp_all add: truthy_def ex_props_def)
  have 3: "\<not> truthy (tableKey (ex_props\<lparr>columns := None\<rparr>))"
    "columns (ex_props\<lparr>columns := None\<rparr>) = None"
    by (simp_all add: truthy_def ex_props_def)
  have 4: "searchTerm ex_state \<noteq> searchTerm (ex_state\<lparr>searchTerm := ''x''\<rparr>)"
    by (simp add: ex_state_def)
  show ?thesis
    using u 1 2 3 4
      persist_key_by_table [where props = "ex_props\<lparr>tableKey := Some ''logs''\<rparr>"
        and toUpperCase = asciiUpper and k = "''logs''"]
      persist_key_by_table [where props = ex_props and toUpperCase = asciiUpper
        and ks = "[''time'', ''msg'']" and prevState = ex_state
        and st = "ex_state\<lparr>searchTerm := ''x''\<rparr>" and sameFilters = True
        and sameDefaultFilters = True and storage = Map.empty]
      persist_key_by_table [where props = "ex_props\<lparr>columns := None\<rparr>"
        and toUpperCase = asciiUpper and prevState = ex_state
        and st = "ex_state\<lparr>searchTerm := ''x''\<rparr>" and sameFilters = True
        and sameDefaultFilters = True and storage = Map.empty]
    by simp
qed

end
